theory Spec2Isabelle
  imports
    Complex_Main
    "HOL-Library.Char_ord"
    "HOL-Library.Log_Nat"
    "HOL-Library.List_Lexorder"
    "HOL-Library.Product_Lexorder"
begin

section \<open>I.DOT pipetting scheme generator: the planning core of generate_idot.py\<close>

text \<open>
  The development follows \<^verbatim>\<open>src/generate_idot.py\<close>. Python strings are lists of
  characters, Python integers are \<^typ>\<open>int\<close>, a \<^verbatim>\<open>dict\<close> is a map, and a raised
  exception is the left summand of the result. Volumes are Python floats, that is IEEE 754
  binary64 numbers, and every operation on them rounds as the format prescribes.
\<close>

subsection \<open>Floats\<close>

text \<open>
  A float is a rational number that the binary64 format represents, an infinity, or
  not-a-number. The two zeros of the format are one value here: they compare equal, and no
  comparison of the code tells them apart.
\<close>

datatype pyfloat = Finite rat | PosInf | NegInf | NaN

definition pow2 :: "int \<Rightarrow> rat" where
  "pow2 e = (if 0 \<le> e then 2 ^ nat e else 1 / 2 ^ nat (- e))"

text \<open>Rounding to the nearest integer, a tie going to the even one.\<close>

definition round_half_even :: "rat \<Rightarrow> int" where
  "round_half_even x =
     (let f = \<lfloor>x\<rfloor>; r = x - of_int f in
      if r < 1 / 2 then f
      else if 1 / 2 < r then f + 1
      else if even f then f else f + 1)"

text \<open>
  The float nearest to a rational number, a tie going to the even significand: with
  \<open>E\<close> the binary exponent of \<open>|q|\<close>, the significand has 53 bits and the unit in the last
  place is \<open>2 ^ (E - 52)\<close>, but not less than \<open>2 ^ - 1074\<close> (subnormal numbers); a result
  of \<open>2 ^ 1024\<close> or more, which is a significand of \<open>2 ^ 53\<close> at the exponent 1023 or any
  larger exponent, is an infinity. This is the value of a decimal literal and the
  rounding step of every arithmetic operation.
\<close>

definition nearest_double :: "rat \<Rightarrow> pyfloat" where
  "nearest_double q =
     (if q = 0 then Finite 0
      else
        (let a = \<bar>q\<bar>;
             (num, den) = quotient_of a;
             k = bitlen num - bitlen den;
             E = (if pow2 k \<le> a then k else k - 1);
             ulp = pow2 (max (E - 52) (- 1074));
             m = round_half_even (a / ulp)
         in if 1024 \<le> E \<or> (E = 1023 \<and> m = 2 ^ 53) then (if 0 < q then PosInf else NegInf)
            else Finite (if 0 < q then of_int m * ulp else - (of_int m * ulp))))"

text \<open>
  The conversion of the integer operand of \<^verbatim>\<open>n_parts * dispense_vol\<close>; \<open>n_parts\<close> is the
  length of a list, far below the integers whose conversion overflows.
\<close>

definition float_of_nat :: "nat \<Rightarrow> pyfloat" where
  "float_of_nat n = nearest_double (of_nat n)"

text \<open>\<^verbatim>\<open>x - y\<close>\<close>

fun float_sub :: "pyfloat \<Rightarrow> pyfloat \<Rightarrow> pyfloat" where
  "float_sub NaN y = NaN"
| "float_sub x NaN = NaN"
| "float_sub (Finite a) (Finite b) = nearest_double (a - b)"
| "float_sub (Finite a) PosInf = NegInf"
| "float_sub (Finite a) NegInf = PosInf"
| "float_sub PosInf PosInf = NaN"
| "float_sub PosInf y = PosInf"
| "float_sub NegInf NegInf = NaN"
| "float_sub NegInf y = NegInf"

text \<open>\<^verbatim>\<open>x * y\<close>\<close>

definition float_sign :: "pyfloat \<Rightarrow> int" where
  "float_sign x =
     (case x of
        Finite a \<Rightarrow> (if a < 0 then - 1 else if a = 0 then 0 else 1)
      | PosInf \<Rightarrow> 1
      | NegInf \<Rightarrow> - 1
      | NaN \<Rightarrow> 0)"

fun float_mul :: "pyfloat \<Rightarrow> pyfloat \<Rightarrow> pyfloat" where
  "float_mul NaN y = NaN"
| "float_mul x NaN = NaN"
| "float_mul (Finite a) (Finite b) = nearest_double (a * b)"
| "float_mul x y =
     (let sign = float_sign x * float_sign y in
      if sign = 0 then NaN else if 0 < sign then PosInf else NegInf)"

text \<open>\<^verbatim>\<open>x < 0\<close> and \<^verbatim>\<open>x > 0\<close>; both are false of not-a-number.\<close>

definition below_zero :: "pyfloat \<Rightarrow> bool" where
  "below_zero x = (case x of Finite a \<Rightarrow> a < 0 | NegInf \<Rightarrow> True | _ \<Rightarrow> False)"

definition above_zero :: "pyfloat \<Rightarrow> bool" where
  "above_zero x = (case x of Finite a \<Rightarrow> 0 < a | PosInf \<Rightarrow> True | _ \<Rightarrow> False)"

text \<open>
  \<^verbatim>\<open>round(x, 4)\<close>: an infinity and not-a-number round to themselves; the exact value of
  a finite float is rounded to the nearest multiple of 0.0001, a tie going to the even
  multiple, and the float nearest to that decimal number is returned.
\<close>

definition round4 :: "pyfloat \<Rightarrow> pyfloat" where
  "round4 x =
     (case x of
        Finite a \<Rightarrow> nearest_double (of_int (round_half_even (a * 10000)) / 10000)
      | _ \<Rightarrow> x)"

subsection \<open>Exceptions\<close>

text \<open>
  Every \<^verbatim>\<open>raise\<close> statement of the planning core raises Python's \<^verbatim>\<open>ValueError\<close>;
  the sites differ by their message only. A message is modelled by the values it is
  formatted from:
  \<^item> \<open>NeedTargetWells count n\<close>: "Need count target wells but a 96-well plate only has n."
    (the capacity error of the specification);
  \<^item> \<open>NoPartGroups\<close>: "No part groups provided for combinatorial mode.", and
    \<open>NoReactionsFound\<close>: "No reactions found in manual specification."
    (the validation errors of the specification);
  \<^item> \<open>PartsNotOnSourcePlate names\<close>: "These parts are listed in reactions but not on the
    Source Plate:" followed by the names, joined (the missing-reagent error);
  \<^item> \<open>ReactionExceedsVolume target n d (n * d) V\<close>: "Reaction in target has n parts x d uL
    = n * d uL, exceeding total volume V uL." (the volume-exceeded error);
  \<^item> the messages of the built-in operations that raise \<^verbatim>\<open>ValueError\<close>: \<^verbatim>\<open>min\<close> of an
    empty sequence, \<^verbatim>\<open>int\<close> of a malformed or too long literal, \<^verbatim>\<open>str.index\<close> of an
    absent substring.
  A missing dictionary key and an index into an empty string raise exceptions of their own.
\<close>

datatype message =
    NeedTargetWells int int
  | NoPartGroups
  | NoReactionsFound
  | PartsNotOnSourcePlate "string list"
  | ReactionExceedsVolume string nat pyfloat pyfloat pyfloat
  | MinEmptySequence
  | InvalidIntLiteral string
  | SubstringNotFound

datatype error =
    ValueError message
  | KeyError string
  | IndexError

subsection \<open>Well helpers\<close>

definition ROWS_96 :: string where
  "ROWS_96 = ''ABCDEFGH''"

text \<open>\<^verbatim>\<open>COLS_96 = range(1, 13)\<close>\<close>

definition COLS_96 :: "int list" where
  "COLS_96 = [1..12]"

text \<open>\<^verbatim>\<open>str(n)\<close> for an integer: decimal digits, most significant first, a minus sign if negative.\<close>

definition digit_char :: "nat \<Rightarrow> char" where
  "digit_char n = char_of (48 + n)"

function str_nat :: "nat \<Rightarrow> string" where
  "str_nat n = (if n < 10 then [digit_char n] else str_nat (n div 10) @ [digit_char (n mod 10)])"
  by pat_completeness auto
termination
  by (relation "measure id") auto

declare str_nat.simps [simp del]

definition str_int :: "int \<Rightarrow> string" where
  "str_int i = (if i < 0 then CHR ''-'' # str_nat (nat (- i)) else str_nat (nat i))"

text \<open>
  \<^verbatim>\<open>int(s)\<close> for a string: surrounding whitespace is stripped (the ASCII characters tab,
  line feed, vertical tab, form feed, carriage return and space, and beyond ASCII the next
  line and no-break space characters), one sign is allowed, and the digits may be grouped
  by single underscores. Anything else raises \<^verbatim>\<open>ValueError\<close>, and so do more than 4300
  digits, the interpreter's default limit for the conversion.
\<close>

definition is_digit :: "char \<Rightarrow> bool" where
  "is_digit c = (48 \<le> (of_char c :: nat) \<and> (of_char c :: nat) \<le> 57)"

definition is_space :: "char \<Rightarrow> bool" where
  "is_space c = ((of_char c :: nat) \<in> {9, 10, 11, 12, 13, 32, 133, 160})"

definition strip :: "string \<Rightarrow> string" where
  "strip s = rev (dropWhile is_space (rev (dropWhile is_space s)))"

fun well_grouped :: "string \<Rightarrow> bool" where
  "well_grouped [] = False"
| "well_grouped [c] = is_digit c"
| "well_grouped (c # u # cs) =
     (is_digit c \<and> (if u = CHR ''_'' then well_grouped cs else well_grouped (u # cs)))"

definition digits_value :: "string \<Rightarrow> int" where
  "digits_value s =
     foldl (\<lambda>acc c. 10 * acc + (int (of_char c) - 48)) 0 (filter (\<lambda>c. c \<noteq> CHR ''_'') s)"

definition int_of_str :: "string \<Rightarrow> error + int" where
  "int_of_str s =
     (let t = strip s;
          (neg, body) = (case t of
                           c # cs \<Rightarrow> if c = CHR ''-'' then (True, cs)
                                     else if c = CHR ''+'' then (False, cs)
                                     else (False, t)
                         | [] \<Rightarrow> (False, t))
      in if well_grouped body \<and> length (filter is_digit body) \<le> 4300
         then Inr (if neg then - digits_value body else digits_value body)
         else Inl (ValueError (InvalidIntLiteral s)))"

text \<open>
  \<^verbatim>\<open>well[0].upper()\<close>: ASCII letters are upper-cased. The upper-case forms of the other
  characters are not modelled; none of them is a row letter, with or without the mapping.
\<close>

definition upper_char :: "char \<Rightarrow> char" where
  "upper_char c =
     (let n = (of_char c :: nat) in if 97 \<le> n \<and> n \<le> 122 then char_of (n - 32) else c)"

text \<open>\<^verbatim>\<open>ROWS_96.index(row)\<close> for a one-character string \<open>row\<close>.\<close>

fun index_from :: "nat \<Rightarrow> string \<Rightarrow> char \<Rightarrow> nat option" where
  "index_from i [] c = None"
| "index_from i (x # xs) c = (if x = c then Some i else index_from (Suc i) xs c)"

definition well_sort_key :: "string \<Rightarrow> error + (int \<times> int)" where
  "well_sort_key well =
     (case well of
        [] \<Rightarrow> Inl IndexError
      | w0 # rest \<Rightarrow>
          (let row = upper_char w0 in
           case int_of_str rest of
             Inl e \<Rightarrow> Inl e
           | Inr col \<Rightarrow>
               (case index_from 0 ROWS_96 row of
                  None \<Rightarrow> Inl (ValueError SubstringNotFound)
                | Some i \<Rightarrow> Inr (col, int i))))"

text \<open>\<^verbatim>\<open>xs[:count]\<close>: a negative \<open>count\<close> counts from the end of the list.\<close>

definition slice_to :: "'a list \<Rightarrow> int \<Rightarrow> 'a list" where
  "slice_to xs count =
     (if count < 0 then take (nat (int (length xs) + count)) xs else take (nat count) xs)"

text \<open>\<^verbatim>\<open>wells = [f"{r}{c}" for c in COLS_96 for r in ROWS_96]\<close>\<close>

definition plate_wells :: "string list" where
  "plate_wells = concat (map (\<lambda>c. map (\<lambda>r. r # str_int c) ROWS_96) COLS_96)"

definition generate_target_wells :: "int \<Rightarrow> error + string list" where
  "generate_target_wells count =
     (let wells = plate_wells in
      if count > int (length wells)
      then Inl (ValueError (NeedTargetWells count (int (length wells))))
      else Inr (slice_to wells count))"

text \<open>
  \<^verbatim>\<open>sorted(ws, key=well_sort_key)\<close>: the key of every element is computed first, in list
  order, so the first failing key is the exception raised; the sort itself is stable.
\<close>

fun keys_of :: "string list \<Rightarrow> error + (int \<times> int) list" where
  "keys_of [] = Inr []"
| "keys_of (w # ws) =
     (case well_sort_key w of
        Inl e \<Rightarrow> Inl e
      | Inr k \<Rightarrow> (case keys_of ws of Inl e \<Rightarrow> Inl e | Inr ks \<Rightarrow> Inr (k # ks)))"

definition sorted_by_well_sort_key :: "string list \<Rightarrow> error + string list" where
  "sorted_by_well_sort_key ws =
     (case keys_of ws of
        Inl e \<Rightarrow> Inl e
      | Inr ks \<Rightarrow> Inr (map snd (sort_key fst (zip ks ws))))"

subsection \<open>Reaction builders\<close>

type_synonym reaction = "string \<times> string list"

text \<open>
  \<^verbatim>\<open>itertools.product(*groups)\<close>, as the library documents it:
  \<^verbatim>\<open>result = [[]]; for pool in pools: result = [x + [y] for x in result for y in pool]\<close>
\<close>

definition cartesian_product :: "'a list list \<Rightarrow> 'a list list" where
  "cartesian_product pools =
     foldl (\<lambda>result pool. concat (map (\<lambda>x. map (\<lambda>y. x @ [y]) pool) result)) [[]] pools"

definition build_combinatorial_reactions ::
  "string list \<Rightarrow> string list list \<Rightarrow> error + reaction list" where
  "build_combinatorial_reactions common_parts groups =
     (if groups = []
      then Inl (ValueError NoPartGroups)
      else
        (let combos = cartesian_product groups in
         case generate_target_wells (int (length combos)) of
           Inl e \<Rightarrow> Inl e
         | Inr targets \<Rightarrow>
             Inr (map (\<lambda>(target, combo). (target, combo @ common_parts)) (zip targets combos))))"

definition build_manual_reactions :: "reaction list \<Rightarrow> error + reaction list" where
  "build_manual_reactions manual_rows =
     (if manual_rows = []
      then Inl (ValueError NoReactionsFound)
      else Inr manual_rows)"

subsection \<open>Dispensing logic\<close>

text \<open>A dispense row is the tuple (source well, target well, volume in uL, liquid name).\<close>

type_synonym dispense_row = "string \<times> string \<times> pyfloat \<times> string"

text \<open>
  The two local variables the nested function and the loops mutate: the dictionary
  \<^verbatim>\<open>well_usage\<close> and the list \<^verbatim>\<open>rows\<close>.
\<close>

record planner_state =
  well_usage :: "string \<rightharpoonup> int"
  rows :: "dispense_row list"

text \<open>\<^verbatim>\<open>well_usage.get(w, 0)\<close>\<close>

definition usage_get :: "(string \<rightharpoonup> int) \<Rightarrow> string \<Rightarrow> int" where
  "usage_get u w = (case u w of None \<Rightarrow> 0 | Some n \<Rightarrow> n)"

text \<open>
  \<^verbatim>\<open>min(wells, key=...)\<close>: the candidate is replaced only by an element with a strictly
  smaller key, so the first of several smallest elements is returned; an empty sequence raises.
\<close>

fun min_from :: "('a \<Rightarrow> int) \<Rightarrow> 'a \<Rightarrow> 'a list \<Rightarrow> 'a" where
  "min_from key best [] = best"
| "min_from key best (w # ws) =
     (if key w < key best then min_from key w ws else min_from key best ws)"

definition min_by_key :: "('a \<Rightarrow> int) \<Rightarrow> 'a list \<Rightarrow> error + 'a" where
  "min_by_key key xs = (case xs of [] \<Rightarrow> Inl (ValueError MinEmptySequence) | w # ws \<Rightarrow> Inr (min_from key w ws))"

text \<open>The nested function; it closes over \<^verbatim>\<open>reagent_to_wells\<close> and mutates \<^verbatim>\<open>well_usage\<close>.\<close>

definition pick_source_well ::
  "(string \<rightharpoonup> string list) \<Rightarrow> (string \<rightharpoonup> int) \<Rightarrow> string
     \<Rightarrow> error + (string \<times> (string \<rightharpoonup> int))" where
  "pick_source_well reagent_to_wells usage reagent =
     (case reagent_to_wells reagent of
        None \<Rightarrow> Inl (KeyError reagent)
      | Some wells \<Rightarrow>
          (case min_by_key (usage_get usage) wells of
             Inl e \<Rightarrow> Inl e
           | Inr best \<Rightarrow> Inr (best, usage(best \<mapsto> usage_get usage best + 1))))"

text \<open>The inner loop \<^verbatim>\<open>for part in parts\<close>.\<close>

fun dispense_parts ::
  "(string \<rightharpoonup> string list) \<Rightarrow> string \<Rightarrow> pyfloat \<Rightarrow> string list \<Rightarrow> planner_state
     \<Rightarrow> error + planner_state" where
  "dispense_parts reagent_to_wells target dispense_vol [] s = Inr s"
| "dispense_parts reagent_to_wells target dispense_vol (part # parts) s =
     (case pick_source_well reagent_to_wells (well_usage s) part of
        Inl e \<Rightarrow> Inl e
      | Inr (src, usage') \<Rightarrow>
          dispense_parts reagent_to_wells target dispense_vol parts
            \<lparr>well_usage = usage', rows = rows s @ [(src, target, dispense_vol, part)]\<rparr>)"

text \<open>The outer loop \<^verbatim>\<open>for target, parts in reactions\<close>.\<close>

fun dispense_reactions ::
  "(string \<rightharpoonup> string list) \<Rightarrow> pyfloat \<Rightarrow> pyfloat \<Rightarrow> string \<Rightarrow> string \<Rightarrow> reaction list
     \<Rightarrow> planner_state \<Rightarrow> error + planner_state" where
  "dispense_reactions reagent_to_wells total_vol dispense_vol mm_well mm_name [] s = Inr s"
| "dispense_reactions reagent_to_wells total_vol dispense_vol mm_well mm_name
     ((target, parts) # reactions) s =
     (let n_parts = length parts;
          mm_vol = round4 (float_sub total_vol (float_mul (float_of_nat n_parts) dispense_vol))
      in if below_zero mm_vol
         then Inl (ValueError (ReactionExceedsVolume target n_parts dispense_vol
                                 (float_mul (float_of_nat n_parts) dispense_vol) total_vol))
         else
           (case dispense_parts reagent_to_wells target dispense_vol parts s of
              Inl e \<Rightarrow> Inl e
            | Inr s' \<Rightarrow>
                dispense_reactions reagent_to_wells total_vol dispense_vol mm_well mm_name
                  reactions
                  (if above_zero mm_vol
                   then s'\<lparr>rows := rows s' @ [(mm_well, target, mm_vol, mm_name)]\<rparr>
                   else s')))"

text \<open>\<^verbatim>\<open>all_parts = set(); for _, parts in reactions: all_parts.update(parts)\<close>\<close>

definition all_parts :: "reaction list \<Rightarrow> string set" where
  "all_parts reactions = foldl (\<lambda>acc (_, parts). acc \<union> set parts) {} reactions"

text \<open>
  \<^verbatim>\<open>missing = all_parts - set(reagent_to_wells.keys())\<close>: the referenced parts that are
  not a key of the dictionary.
\<close>

definition missing_parts :: "reaction list \<Rightarrow> (string \<rightharpoonup> string list) \<Rightarrow> string set" where
  "missing_parts reactions reagent_to_wells =
     Set.filter (\<lambda>p. reagent_to_wells p = None) (all_parts reactions)"

definition build_dispense_rows ::
  "reaction list \<Rightarrow> (string \<rightharpoonup> string list) \<Rightarrow> pyfloat \<Rightarrow> pyfloat \<Rightarrow> string \<Rightarrow> string
     \<Rightarrow> error + dispense_row list" where
  "build_dispense_rows reactions reagent_to_wells total_vol dispense_vol mm_well mm_name =
     (let missing = missing_parts reactions reagent_to_wells in
      if missing \<noteq> {}
      then Inl (ValueError (PartsNotOnSourcePlate (sorted_list_of_set missing)))
      else
        (case dispense_reactions reagent_to_wells total_vol dispense_vol mm_well mm_name
                reactions \<lparr>well_usage = Map.empty, rows = []\<rparr> of
           Inl e \<Rightarrow> Inl e
         | Inr s \<Rightarrow> Inr (rows s)))"

subsection \<open>Dispensing logic, with the usage dictionary on a heap\<close>

text \<open>
  The statement \<^verbatim>\<open>well_usage: dict[str, int] = {}\<close> creates a dictionary object, and the
  nested function refers to that object. In this second model of \<open>build_dispense_rows\<close>
  the dictionaries live on a heap, the list of the dictionaries created so far, and an
  object is known by its address, its position in the list. An invocation starts on the
  heap the earlier invocations have left, puts its new dictionary at the next free
  address, and reads and writes the heap at that address only through \<open>h ! a\<close> and
  \<open>h[a := _]\<close>. The rest of the code is as above.
\<close>

type_synonym heap = "(string \<rightharpoonup> int) list"

definition pick_source_well_at ::
  "(string \<rightharpoonup> string list) \<Rightarrow> nat \<Rightarrow> heap \<Rightarrow> string \<Rightarrow> error + (string \<times> heap)" where
  "pick_source_well_at reagent_to_wells a h reagent =
     (case reagent_to_wells reagent of
        None \<Rightarrow> Inl (KeyError reagent)
      | Some wells \<Rightarrow>
          (case min_by_key (usage_get (h ! a)) wells of
             Inl e \<Rightarrow> Inl e
           | Inr best \<Rightarrow> Inr (best, h[a := (h ! a)(best \<mapsto> usage_get (h ! a) best + 1)])))"

fun dispense_parts_at ::
  "(string \<rightharpoonup> string list) \<Rightarrow> nat \<Rightarrow> string \<Rightarrow> pyfloat \<Rightarrow> string list
     \<Rightarrow> heap \<times> dispense_row list \<Rightarrow> error + (heap \<times> dispense_row list)" where
  "dispense_parts_at reagent_to_wells a target dispense_vol [] (h, rws) = Inr (h, rws)"
| "dispense_parts_at reagent_to_wells a target dispense_vol (part # parts) (h, rws) =
     (case pick_source_well_at reagent_to_wells a h part of
        Inl e \<Rightarrow> Inl e
      | Inr (src, h') \<Rightarrow>
          dispense_parts_at reagent_to_wells a target dispense_vol parts
            (h', rws @ [(src, target, dispense_vol, part)]))"

fun dispense_reactions_at ::
  "(string \<rightharpoonup> string list) \<Rightarrow> nat \<Rightarrow> pyfloat \<Rightarrow> pyfloat \<Rightarrow> string \<Rightarrow> string \<Rightarrow> reaction list
     \<Rightarrow> heap \<times> dispense_row list \<Rightarrow> error + (heap \<times> dispense_row list)" where
  "dispense_reactions_at reagent_to_wells a total_vol dispense_vol mm_well mm_name [] (h, rws) =
     Inr (h, rws)"
| "dispense_reactions_at reagent_to_wells a total_vol dispense_vol mm_well mm_name
     ((target, parts) # reactions) (h, rws) =
     (let n_parts = length parts;
          mm_vol = round4 (float_sub total_vol (float_mul (float_of_nat n_parts) dispense_vol))
      in if below_zero mm_vol
         then Inl (ValueError (ReactionExceedsVolume target n_parts dispense_vol
                                 (float_mul (float_of_nat n_parts) dispense_vol) total_vol))
         else
           (case dispense_parts_at reagent_to_wells a target dispense_vol parts (h, rws) of
              Inl e \<Rightarrow> Inl e
            | Inr (h', rws') \<Rightarrow>
                dispense_reactions_at reagent_to_wells a total_vol dispense_vol mm_well mm_name
                  reactions
                  (h', if above_zero mm_vol then rws' @ [(mm_well, target, mm_vol, mm_name)] else rws')))"

definition build_dispense_rows_on ::
  "heap \<Rightarrow> reaction list \<Rightarrow> (string \<rightharpoonup> string list) \<Rightarrow> pyfloat \<Rightarrow> pyfloat \<Rightarrow> string \<Rightarrow> string
     \<Rightarrow> error + (dispense_row list \<times> heap)" where
  "build_dispense_rows_on h reactions reagent_to_wells total_vol dispense_vol mm_well mm_name =
     (let missing = missing_parts reactions reagent_to_wells in
      if missing \<noteq> {}
      then Inl (ValueError (PartsNotOnSourcePlate (sorted_list_of_set missing)))
      else
        (let a = length h in
         case dispense_reactions_at reagent_to_wells a total_vol dispense_vol mm_well mm_name
                reactions (h @ [Map.empty], []) of
           Inl e \<Rightarrow> Inl e
         | Inr (h', rws) \<Rightarrow> Inr (rws, h')))"

subsection \<open>Reference descriptions\<close>

text \<open>
  The descriptions below follow the wording of the specification, not the code; the
  theorems compare the code with them.
\<close>

text \<open>
  Column-major fill order, the row cycling fastest: position \<open>i\<close> of the plate (counted
  from 0) has the row letter number \<open>i mod 8\<close> and the column number \<open>i div 8 + 1\<close>.
\<close>

definition column_major_well :: "nat \<Rightarrow> string" where
  "column_major_well i = ROWS_96 ! (i mod 8) # str_int (int (i div 8) + 1)"

text \<open>
  The lexicographic product of the groups, the first group varying slowest: every
  element of the first group, in order, is put in front of every combination of the
  remaining groups, in order.
\<close>

fun lex_product :: "'a list list \<Rightarrow> 'a list list" where
  "lex_product [] = [[]]"
| "lex_product (g # gs) = concat (map (\<lambda>x. map (\<lambda>combo. x # combo) (lex_product gs)) g)"

text \<open>
  The filler volume of a reaction: \<open>round(V - n * d, 4)\<close> for its \<open>n\<close> parts, in float
  arithmetic.
\<close>

definition filler_volume :: "pyfloat \<Rightarrow> pyfloat \<Rightarrow> string list \<Rightarrow> pyfloat" where
  "filler_volume V d parts = round4 (float_sub V (float_mul (float_of_nat (length parts)) d))"

text \<open>
  The block of one reaction, given the source wells of its parts: one row per part, in
  part order, with volume \<open>d\<close> and the part's name; then the filler row, if the filler
  volume is positive.
\<close>

definition reaction_block ::
  "string \<Rightarrow> string \<Rightarrow> pyfloat \<Rightarrow> pyfloat \<Rightarrow> string list \<Rightarrow> reaction \<Rightarrow> dispense_row list" where
  "reaction_block filler_well filler_name V d srcs r =
     map (\<lambda>(src, part). (src, fst r, d, part)) (zip srcs (snd r)) @
     (if above_zero (filler_volume V d (snd r))
      then [(filler_well, fst r, filler_volume V d (snd r), filler_name)] else [])"

text \<open>
  Source-well selection for a sequence of parts, one after the other, each on the usage
  counter the one before has left.
\<close>

fun pick_all ::
  "(string \<rightharpoonup> string list) \<Rightarrow> string list \<Rightarrow> (string \<rightharpoonup> int)
     \<Rightarrow> error + (string list \<times> (string \<rightharpoonup> int))" where
  "pick_all m [] u = Inr ([], u)"
| "pick_all m (p # ps) u =
     (case pick_source_well m u p of
        Inl e \<Rightarrow> Inl e
      | Inr (src, u') \<Rightarrow>
          (case pick_all m ps u' of
             Inl e \<Rightarrow> Inl e
           | Inr (srcs, u'') \<Rightarrow> Inr (src # srcs, u'')))"

text \<open>A reagent map of the data model: every reagent has one or more source wells.\<close>

definition well_formed :: "(string \<rightharpoonup> string list) \<Rightarrow> bool" where
  "well_formed m = (\<forall>p ws. m p = Some ws \<longrightarrow> ws \<noteq> [])"

section \<open>Properties\<close>

subsection \<open>The well grid\<close>

lemma plate_wells_column_major: "plate_wells = map column_major_well [0..<96]"
  by code_simp

lemma length_plate_wells: "length plate_wells = 96"
  by (simp add: plate_wells_column_major)

lemma distinct_plate_wells: "distinct plate_wells"
  by code_simp

lemma generate_target_wells_in_range:
  assumes "0 \<le> count" and "count \<le> 96"
  shows "generate_target_wells count = Inr (take (nat count) plate_wells)"
  using assms by (simp add: generate_target_wells_def slice_to_def length_plate_wells)

text \<open>
  C6: for every count of at most 96, \<open>generate_target_wells\<close> returns exactly that many
  pairwise distinct wells in column-major order (the well at position \<open>i\<close> is
  \<open>column_major_well i\<close>, so the list reads A1, B1, ..., H1, A2, ...); for every count
  greater than 96 it raises the capacity error, which reports the count and the 96 wells
  of the plate. A count is a number of wells, as the caller passes it: the length of a
  list.
\<close>

theorem generate_target_wells_column_major:
  "(n \<le> 96 \<longrightarrow>
      (\<exists>ws. generate_target_wells (int n) = Inr ws \<and> length ws = n \<and> distinct ws \<and>
            (\<forall>i < n. ws ! i = column_major_well i))) \<and>
   (96 < n \<longrightarrow> generate_target_wells (int n) = Inl (ValueError (NeedTargetWells (int n) 96)))"
proof (intro conjI impI)
  assume range: "n \<le> 96"
  let ?ws = "take n plate_wells"
  have "generate_target_wells (int n) = Inr ?ws"
    using range by (simp add: generate_target_wells_in_range)
  moreover have "length ?ws = n"
    using range by (simp add: length_plate_wells)
  moreover have "distinct ?ws"
    using distinct_plate_wells by (rule distinct_take)
  moreover have "\<forall>i < n. ?ws ! i = column_major_well i"
    using range by (simp add: plate_wells_column_major)
  ultimately show "\<exists>ws. generate_target_wells (int n) = Inr ws \<and> length ws = n \<and>
      distinct ws \<and> (\<forall>i < n. ws ! i = column_major_well i)"
    by blast
next
  assume "96 < n"
  then show "generate_target_wells (int n) = Inl (ValueError (NeedTargetWells (int n) 96))"
    by (simp add: generate_target_wells_def length_plate_wells)
qed

theorem generate_target_wells_column_major_witness:
  "generate_target_wells 4 = Inr [''A1'', ''B1'', ''C1'', ''D1''] \<and>
   generate_target_wells 97 = Inl (ValueError (NeedTargetWells 97 96))"
proof -
  from generate_target_wells_column_major [of 4]
  obtain ws where ws: "generate_target_wells (int 4) = Inr ws" "length ws = 4"
    "\<forall>i < 4. ws ! i = column_major_well i"
    by auto
  have "ws = map ((!) ws) [0..<length ws]"
    by (simp add: map_nth)
  also have "\<dots> = map column_major_well [0..<4]"
    using ws(2,3) by simp
  also have "\<dots> = [''A1'', ''B1'', ''C1'', ''D1'']"
    by code_simp
  finally have "generate_target_wells 4 = Inr [''A1'', ''B1'', ''C1'', ''D1'']"
    using ws(1) by simp
  moreover have "generate_target_wells 97 = Inl (ValueError (NeedTargetWells 97 96))"
    using generate_target_wells_column_major [of 97] by simp
  ultimately show ?thesis by simp
qed

subsection \<open>The display order\<close>

lemma plate_keys:
  "keys_of plate_wells = Inr (map (\<lambda>i. (int (i div 8) + 1, int (i mod 8))) [0..<96])"
  by code_simp

lemma plate_keys_increasing:
  "sorted_wrt (<) (map (\<lambda>i. (int (i div 8) + 1, int (i mod 8))) [0..<96])"
  by code_simp

lemma increasing_positions:
  fixes ks :: "(int \<times> int) list"
  assumes "sorted_wrt (<) ks" and "i < length ks" and "j < length ks"
  shows "(ks ! i < ks ! j) = (i < j)"
proof (cases i j rule: linorder_cases)
  case less
  with assms show ?thesis
    by (simp add: sorted_wrt_nth_less)
next
  case equal
  then show ?thesis by simp
next
  case greater
  with assms have "ks ! j < ks ! i"
    by (simp add: sorted_wrt_nth_less)
  with greater show ?thesis by simp
qed

lemma keys_of_length: "keys_of ws = Inr ks \<Longrightarrow> length ks = length ws"
  by (induction ws arbitrary: ks) (auto split: sum.splits)

lemma keys_of_take: "keys_of ws = Inr ks \<Longrightarrow> keys_of (take n ws) = Inr (take n ks)"
proof (induction ws arbitrary: ks n)
  case Nil
  then show ?case by simp
next
  case (Cons w ws)
  then show ?case
    by (cases n) (auto split: sum.splits)
qed

lemma sorted_by_key_fixpoint:
  assumes "keys_of ws = Inr ks" and "sorted ks"
  shows "sorted_by_well_sort_key ws = Inr ws"
proof -
  have len: "length ks = length ws"
    using assms(1) by (rule keys_of_length)
  then have "map fst (zip ks ws) = ks"
    by simp
  with assms(2) have "sort_key fst (zip ks ws) = zip ks ws"
    by (simp add: sort_key_id_if_sorted)
  with len assms(1) show ?thesis
    by (simp add: sorted_by_well_sort_key_def)
qed

text \<open>
  C9: the order in which target wells are assigned and the order of the display sort key
  are the same. For every count from 0 to 96, the keys of the wells that
  \<open>generate_target_wells count\<close> returns are the pairs (column, row index) of their
  positions and increase strictly along the list, so that one well comes before another in
  the list exactly if its key is smaller; and sorting the list by \<open>well_sort_key\<close>
  returns that same list.
\<close>

theorem enumeration_sorted_fixpoint:
  "0 \<le> count \<and> count \<le> 96 \<longrightarrow>
     (\<exists>ws ks. generate_target_wells count = Inr ws \<and> keys_of ws = Inr ks \<and>
        length ks = length ws \<and>
        (\<forall>i < length ks. ks ! i = (int (i div 8) + 1, int (i mod 8))) \<and>
        sorted_wrt (<) ks \<and>
        (\<forall>i < length ks. \<forall>j < length ks. (ks ! i < ks ! j) = (i < j)) \<and>
        sorted_by_well_sort_key ws = Inr ws)"
proof
  assume range: "0 \<le> count \<and> count \<le> 96"
  let ?ws = "take (nat count) plate_wells"
  let ?ks = "take (nat count) (map (\<lambda>i. (int (i div 8) + 1, int (i mod 8))) [0..<96])"
  have enum: "generate_target_wells count = Inr ?ws"
    using range by (simp add: generate_target_wells_in_range)
  have keys: "keys_of ?ws = Inr ?ks"
    using plate_keys by (rule keys_of_take)
  then have len: "length ?ks = length ?ws"
    by (rule keys_of_length)
  have positions: "\<forall>i < length ?ks. ?ks ! i = (int (i div 8) + 1, int (i mod 8))"
    by simp
  have increasing: "sorted_wrt (<) ?ks"
    using plate_keys_increasing by (rule sorted_wrt_take)
  then have same_order: "\<forall>i < length ?ks. \<forall>j < length ?ks. (?ks ! i < ?ks ! j) = (i < j)"
    using increasing_positions [of ?ks] by blast
  have "sorted ?ks"
    using increasing by (rule strict_sorted_imp_sorted)
  with keys have fixpoint: "sorted_by_well_sort_key ?ws = Inr ?ws"
    by (rule sorted_by_key_fixpoint)
  show "\<exists>ws ks. generate_target_wells count = Inr ws \<and> keys_of ws = Inr ks \<and>
        length ks = length ws \<and>
        (\<forall>i < length ks. ks ! i = (int (i div 8) + 1, int (i mod 8))) \<and>
        sorted_wrt (<) ks \<and>
        (\<forall>i < length ks. \<forall>j < length ks. (ks ! i < ks ! j) = (i < j)) \<and>
        sorted_by_well_sort_key ws = Inr ws"
    using enum keys len positions increasing same_order fixpoint by blast
qed

theorem enumeration_sorted_fixpoint_witness:
  "\<exists>ws ks. generate_target_wells 96 = Inr ws \<and> keys_of ws = Inr ks \<and>
     length ks = length ws \<and> sorted_wrt (<) ks \<and> sorted_by_well_sort_key ws = Inr ws"
  using enumeration_sorted_fixpoint [of 96] by auto

subsection \<open>The reaction builders\<close>

lemma product_step_lex:
  "concat (map (\<lambda>x'. map (\<lambda>combo. x' @ combo) cs) (concat (map (\<lambda>x. map (\<lambda>y. x @ [y]) pool) acc))) =
   concat (map (\<lambda>x. concat (map (\<lambda>y. map (\<lambda>combo. x @ y # combo) cs) pool)) acc)"
proof -
  have "(@) (a @ [y]) = (\<lambda>combo. a @ y # combo)" for a :: "'a list" and y
    by (simp add: fun_eq_iff)
  then show ?thesis
    by (induction acc) (simp_all add: comp_def)
qed

lemma foldl_product_step:
  "foldl (\<lambda>result pool. concat (map (\<lambda>x. map (\<lambda>y. x @ [y]) pool) result)) acc pools =
   concat (map (\<lambda>x. map (\<lambda>combo. x @ combo) (lex_product pools)) acc)"
proof (induction pools arbitrary: acc)
  case Nil
  show ?case by (induction acc) auto
next
  case (Cons pool pools)
  have "map (\<lambda>combo. x @ combo) (lex_product (pool # pools)) =
        concat (map (\<lambda>y. map (\<lambda>combo. x @ y # combo) (lex_product pools)) pool)" for x :: "'a list"
    by (simp add: map_concat comp_def)
  then show ?case
    by (simp add: Cons.IH product_step_lex del: lex_product.simps)
qed

lemma cartesian_product_lex: "cartesian_product groups = lex_product groups"
proof -
  have unit: "map ((@) []) combos = combos" for combos :: "'a list list"
    by (induction combos) simp_all
  show ?thesis
    unfolding cartesian_product_def foldl_product_step using unit [of "lex_product groups"]
    by simp
qed

lemma combinatorial_example:
  "build_combinatorial_reactions [''c''] [[''a'', ''b''], [''x'', ''y'']] =
     Inr [(''A1'', [''a'', ''x'', ''c'']), (''B1'', [''a'', ''y'', ''c'']),
          (''C1'', [''b'', ''x'', ''c'']), (''D1'', [''b'', ''y'', ''c''])]"
  by code_simp

lemma lex_product_97: "length (lex_product [replicate 97 ''p'']) = 97"
  by code_simp

text \<open>
  C3: without groups the combinatorial expansion raises the validation error. With groups,
  and at most 96 combinations, it returns one reaction per element of the lexicographic
  product, in that order: reaction number \<open>i\<close> has the target well number \<open>i\<close> of the
  column-major enumeration and the parts of combination number \<open>i\<close>, in group order,
  followed by the common parts. With more than 96 combinations it raises the well grid's
  error. The groups \<open>[[a, b], [x, y]]\<close> with the common part \<open>c\<close> give \<open>[a, x, c]\<close>,
  \<open>[a, y, c]\<close>, \<open>[b, x, c]\<close>, \<open>[b, y, c]\<close> at A1, B1, C1, D1.
\<close>

theorem build_combinatorial_reactions_product:
  "build_combinatorial_reactions common [] = Inl (ValueError NoPartGroups) \<and>
   (groups \<noteq> [] \<and> length (lex_product groups) \<le> 96 \<longrightarrow>
      build_combinatorial_reactions common groups =
        Inr (map (\<lambda>i. (column_major_well i, lex_product groups ! i @ common))
               [0..<length (lex_product groups)])) \<and>
   (groups \<noteq> [] \<and> 96 < length (lex_product groups) \<longrightarrow>
      build_combinatorial_reactions common groups =
        Inl (ValueError (NeedTargetWells (int (length (lex_product groups))) 96))) \<and>
   build_combinatorial_reactions [''c''] [[''a'', ''b''], [''x'', ''y'']] =
     Inr [(''A1'', [''a'', ''x'', ''c'']), (''B1'', [''a'', ''y'', ''c'']),
          (''C1'', [''b'', ''x'', ''c'']), (''D1'', [''b'', ''y'', ''c''])]"
proof (intro conjI impI)
  show "build_combinatorial_reactions common [] = Inl (ValueError NoPartGroups)"
    by (simp add: build_combinatorial_reactions_def)
next
  assume a: "groups \<noteq> [] \<and> length (lex_product groups) \<le> 96"
  let ?combos = "lex_product groups"
  let ?n = "length ?combos"
  have targets: "generate_target_wells (int ?n) = Inr (take ?n plate_wells)"
    using a by (simp add: generate_target_wells_in_range)
  have "map (\<lambda>(target, combo). (target, combo @ common)) (zip (take ?n plate_wells) ?combos) =
        map (\<lambda>i. (column_major_well i, ?combos ! i @ common)) [0..<?n]"
    using a by (intro nth_equalityI) (simp_all add: length_plate_wells plate_wells_column_major)
  with a targets show "build_combinatorial_reactions common groups =
      Inr (map (\<lambda>i. (column_major_well i, ?combos ! i @ common)) [0..<?n])"
    by (simp add: build_combinatorial_reactions_def cartesian_product_lex Let_def)
next
  assume a: "groups \<noteq> [] \<and> 96 < length (lex_product groups)"
  then have "generate_target_wells (int (length (lex_product groups))) =
      Inl (ValueError (NeedTargetWells (int (length (lex_product groups))) 96))"
    by (simp add: generate_target_wells_def length_plate_wells)
  with a show "build_combinatorial_reactions common groups =
      Inl (ValueError (NeedTargetWells (int (length (lex_product groups))) 96))"
    by (simp add: build_combinatorial_reactions_def cartesian_product_lex)
next
  show "build_combinatorial_reactions [''c''] [[''a'', ''b''], [''x'', ''y'']] =
     Inr [(''A1'', [''a'', ''x'', ''c'']), (''B1'', [''a'', ''y'', ''c'']),
          (''C1'', [''b'', ''x'', ''c'']), (''D1'', [''b'', ''y'', ''c''])]"
    by (rule combinatorial_example)
qed

theorem build_combinatorial_reactions_product_witness:
  "[[''a'', ''b''], [''x'', ''y'']] \<noteq> [] \<and> length (lex_product [[''a'', ''b''], [''x'', ''y'']]) \<le> 96 \<and>
   build_combinatorial_reactions [''c''] [[''a'', ''b''], [''x'', ''y'']] =
     Inr (map (\<lambda>i. (column_major_well i, lex_product [[''a'', ''b''], [''x'', ''y'']] ! i @ [''c'']))
            [0..<length (lex_product [[''a'', ''b''], [''x'', ''y'']])]) \<and>
   [replicate 97 ''p''] \<noteq> [] \<and> 96 < length (lex_product [replicate 97 ''p'']) \<and>
   build_combinatorial_reactions [] [replicate 97 ''p''] = Inl (ValueError (NeedTargetWells 97 96))"
  using build_combinatorial_reactions_product [of "[''c'']" "[[''a'', ''b''], [''x'', ''y'']]"]
    build_combinatorial_reactions_product [of "[]" "[replicate 97 ''p'']"]
  by (simp add: lex_product_97)

text \<open>
  C8: the manual expansion raises the validation error on the empty list; a non-empty
  list whose part lists are all non-empty is returned as it is, duplicate target wells
  included.
\<close>

theorem build_manual_reactions_pass_through:
  "build_manual_reactions [] = Inl (ValueError NoReactionsFound) \<and>
   (manual_rows \<noteq> [] \<and> (\<forall>(target, parts) \<in> set manual_rows. parts \<noteq> []) \<longrightarrow>
      build_manual_reactions manual_rows = Inr manual_rows)"
  by (simp add: build_manual_reactions_def)

theorem build_manual_reactions_pass_through_witness:
  "build_manual_reactions [(''A1'', [''p'']), (''A1'', [''q''])] =
     Inr [(''A1'', [''p'']), (''A1'', [''q''])]"
  using build_manual_reactions_pass_through [of "[(''A1'', [''p'']), (''A1'', [''q''])]"]
  by simp

subsection \<open>The planner: selection, loops and the pre-flight check\<close>

lemma min_from_first_least:
  "(min_from key best ws = best \<and> (\<forall>w \<in> set ws. key best \<le> key w)) \<or>
   (\<exists>pre post. ws = pre @ min_from key best ws # post \<and>
      key (min_from key best ws) < key best \<and>
      (\<forall>w \<in> set pre. key (min_from key best ws) < key w) \<and>
      (\<forall>w \<in> set post. key (min_from key best ws) \<le> key w))"
proof (induction ws arbitrary: best)
  case Nil
  show ?case by simp
next
  case (Cons w ws)
  show ?case
  proof (cases "key w < key best")
    case True
    let ?b = "min_from key w ws"
    from Cons.IH [of w] consider
      (same) "?b = w" "\<forall>x \<in> set ws. key w \<le> key x"
      | (later) pre post where "ws = pre @ ?b # post" "key ?b < key w"
          "\<forall>x \<in> set pre. key ?b < key x" "\<forall>x \<in> set post. key ?b \<le> key x"
      by blast
    then show ?thesis
    proof cases
      case same
      with True have "w # ws = [] @ min_from key best (w # ws) # ws \<and>
          key (min_from key best (w # ws)) < key best \<and>
          (\<forall>x \<in> set []. key (min_from key best (w # ws)) < key x) \<and>
          (\<forall>x \<in> set ws. key (min_from key best (w # ws)) \<le> key x)"
        by simp
      then show ?thesis by blast
    next
      case later
      with True have "w # ws = (w # pre) @ min_from key best (w # ws) # post \<and>
          key (min_from key best (w # ws)) < key best \<and>
          (\<forall>x \<in> set (w # pre). key (min_from key best (w # ws)) < key x) \<and>
          (\<forall>x \<in> set post. key (min_from key best (w # ws)) \<le> key x)"
        by simp
      then show ?thesis by blast
    qed
  next
    case False
    let ?b = "min_from key best ws"
    from Cons.IH [of best] consider
      (same) "?b = best" "\<forall>x \<in> set ws. key best \<le> key x"
      | (later) pre post where "ws = pre @ ?b # post" "key ?b < key best"
          "\<forall>x \<in> set pre. key ?b < key x" "\<forall>x \<in> set post. key ?b \<le> key x"
      by blast
    then show ?thesis
    proof cases
      case same
      with False show ?thesis by simp
    next
      case later
      with False have "w # ws = (w # pre) @ min_from key best (w # ws) # post \<and>
          key (min_from key best (w # ws)) < key best \<and>
          (\<forall>x \<in> set (w # pre). key (min_from key best (w # ws)) < key x) \<and>
          (\<forall>x \<in> set post. key (min_from key best (w # ws)) \<le> key x)"
        by simp
      then show ?thesis by blast
    qed
  qed
qed

lemma min_by_key_first_least:
  assumes "xs \<noteq> []"
  shows "\<exists>best pre post. min_by_key key xs = Inr best \<and> xs = pre @ best # post \<and>
           (\<forall>w \<in> set pre. key best < key w) \<and> (\<forall>w \<in> set post. key best \<le> key w)"
proof -
  from assms obtain x ws where xs: "xs = x # ws"
    by (cases xs) auto
  let ?b = "min_from key x ws"
  have run: "min_by_key key xs = Inr ?b"
    by (simp add: xs min_by_key_def)
  from min_from_first_least [of key x ws] consider
    (same) "?b = x" "\<forall>w \<in> set ws. key x \<le> key w"
    | (later) pre post where "ws = pre @ ?b # post" "key ?b < key x"
        "\<forall>w \<in> set pre. key ?b < key w" "\<forall>w \<in> set post. key ?b \<le> key w"
    by blast
  then show ?thesis
  proof cases
    case same
    then have "xs = [] @ ?b # ws \<and> (\<forall>w \<in> set []. key ?b < key w) \<and>
        (\<forall>w \<in> set ws. key ?b \<le> key w)"
      by (simp add: xs)
    with run show ?thesis by blast
  next
    case later
    then have "xs = (x # pre) @ ?b # post \<and> (\<forall>w \<in> set (x # pre). key ?b < key w) \<and>
        (\<forall>w \<in> set post. key ?b \<le> key w)"
      by (simp add: xs)
    with run show ?thesis by blast
  qed
qed

lemma pick_source_well_first_least:
  assumes "m reagent = Some wells" and "wells \<noteq> []"
  shows "\<exists>best pre post.
           pick_source_well m u reagent = Inr (best, u(best \<mapsto> usage_get u best + 1)) \<and>
           wells = pre @ best # post \<and>
           (\<forall>w \<in> set pre. usage_get u best < usage_get u w) \<and>
           (\<forall>w \<in> set post. usage_get u best \<le> usage_get u w)"
proof -
  from min_by_key_first_least [OF assms(2), of "usage_get u"] obtain best pre post where
    "min_by_key (usage_get u) wells = Inr best" "wells = pre @ best # post"
    "\<forall>w \<in> set pre. usage_get u best < usage_get u w"
    "\<forall>w \<in> set post. usage_get u best \<le> usage_get u w"
    by blast
  with assms(1) show ?thesis
    by (auto simp: pick_source_well_def)
qed

lemma pick_source_well_usage:
  assumes "pick_source_well m u p = Inr (src, u')"
  shows "usage_get u' well = usage_get u well + (if well = src then 1 else 0)"
  using assms
  by (auto simp: pick_source_well_def usage_get_def split: option.splits sum.splits)

lemma pick_all_length: "pick_all m ps u = Inr (srcs, u') \<Longrightarrow> length srcs = length ps"
  by (induction ps arbitrary: u srcs) (auto split: sum.splits prod.splits)

lemma pick_all_append:
  "pick_all m (ps @ qs) u =
     (case pick_all m ps u of
        Inl e \<Rightarrow> Inl e
      | Inr (srcs, u') \<Rightarrow>
          (case pick_all m qs u' of
             Inl e \<Rightarrow> Inl e
           | Inr (srcs', u'') \<Rightarrow> Inr (srcs @ srcs', u'')))"
  by (induction ps arbitrary: u) (auto split: sum.splits prod.splits)

lemma pick_all_usage:
  "pick_all m ps u = Inr (srcs, u') \<Longrightarrow>
     usage_get u' well = usage_get u well + int (count_list srcs well)"
proof (induction ps arbitrary: u srcs)
  case Nil
  then show ?case by simp
next
  case (Cons p ps)
  from Cons.prems obtain src u1 srcs1 where
    first: "pick_source_well m u p = Inr (src, u1)" and
    rest: "pick_all m ps u1 = Inr (srcs1, u')" and
    srcs: "srcs = src # srcs1"
    by (auto split: sum.splits prod.splits)
  from Cons.IH [OF rest] pick_source_well_usage [OF first, of well] srcs
  show ?case by simp
qed

lemma pick_all_succeeds:
  assumes "well_formed m" and "set ps \<subseteq> dom m"
  shows "\<exists>srcs u'. pick_all m ps u = Inr (srcs, u')"
  using assms(2)
proof (induction ps arbitrary: u)
  case Nil
  show ?case by simp
next
  case (Cons p ps)
  from Cons.prems obtain wells where wells: "m p = Some wells"
    by auto
  with assms(1) have "wells \<noteq> []"
    by (simp add: well_formed_def)
  with wells pick_source_well_first_least [of m p wells u]
  obtain best u1 where first: "pick_source_well m u p = Inr (best, u1)"
    by blast
  from Cons.prems have "set ps \<subseteq> dom m"
    by simp
  from Cons.IH [OF this, of u1] obtain srcs u' where "pick_all m ps u1 = Inr (srcs, u')"
    by blast
  with first show ?case by simp
qed

lemma dispense_parts_pick_all:
  "dispense_parts m target d ps s =
     (case pick_all m ps (well_usage s) of
        Inl e \<Rightarrow> Inl e
      | Inr (srcs, u') \<Rightarrow>
          Inr \<lparr>well_usage = u',
               rows = rows s @ map (\<lambda>(src, part). (src, target, d, part)) (zip srcs ps)\<rparr>)"
  by (induction ps arbitrary: s) (auto split: sum.splits prod.splits)

lemma dispense_reactions_step:
  "dispense_reactions m V d w n (r # rs) s =
     (if below_zero (filler_volume V d (snd r))
      then Inl (ValueError (ReactionExceedsVolume (fst r) (length (snd r)) d
                  (float_mul (float_of_nat (length (snd r))) d) V))
      else
        (case pick_all m (snd r) (well_usage s) of
           Inl e \<Rightarrow> Inl e
         | Inr (srcs, u') \<Rightarrow>
             dispense_reactions m V d w n rs
               \<lparr>well_usage = u', rows = rows s @ reaction_block w n V d srcs r\<rparr>))"
  by (cases r)
    (auto simp: filler_volume_def Let_def dispense_parts_pick_all reaction_block_def
      split: sum.splits prod.splits)

lemma dispense_reactions_blocks:
  assumes "dispense_reactions m V d w n rs s = Inr s'"
  shows "\<exists>srcss. list_all2 (\<lambda>srcs r. length srcs = length (snd r)) srcss rs \<and>
           pick_all m (concat (map snd rs)) (well_usage s) = Inr (concat srcss, well_usage s') \<and>
           rows s' = rows s @ concat (map2 (reaction_block w n V d) srcss rs) \<and>
           (\<forall>r \<in> set rs. \<not> below_zero (filler_volume V d (snd r)))"
  using assms
proof (induction rs arbitrary: s)
  case Nil
  then show ?case by simp
next
  case (Cons r rs)
  let ?fv = "filler_volume V d (snd r)"
  from Cons.prems have nonneg: "\<not> below_zero ?fv"
    by (auto simp: dispense_reactions_step simp del: dispense_reactions.simps split: if_splits)
  from Cons.prems nonneg obtain srcs1 u1 where
    p1: "pick_all m (snd r) (well_usage s) = Inr (srcs1, u1)"
    by (auto simp: dispense_reactions_step simp del: dispense_reactions.simps
        split: if_splits sum.splits prod.splits)
  let ?s1 = "\<lparr>well_usage = u1, rows = rows s @ reaction_block w n V d srcs1 r\<rparr>"
  from Cons.prems nonneg p1 have rest: "dispense_reactions m V d w n rs ?s1 = Inr s'"
    by (simp add: dispense_reactions_step del: dispense_reactions.simps)
  from Cons.IH [OF rest] obtain srcss where
    len2: "list_all2 (\<lambda>srcs r. length srcs = length (snd r)) srcss rs" and
    p2: "pick_all m (concat (map snd rs)) u1 = Inr (concat srcss, well_usage s')" and
    rows2: "rows s' = rows ?s1 @ concat (map2 (reaction_block w n V d) srcss rs)" and
    nn2: "\<forall>r \<in> set rs. \<not> below_zero (filler_volume V d (snd r))"
    by auto
  have len1: "length srcs1 = length (snd r)"
    using p1 by (rule pick_all_length)
  have "list_all2 (\<lambda>srcs r. length srcs = length (snd r)) (srcs1 # srcss) (r # rs)"
    using len1 len2 by simp
  moreover have "pick_all m (concat (map snd (r # rs))) (well_usage s) =
      Inr (concat (srcs1 # srcss), well_usage s')"
    using p1 p2 by (simp add: pick_all_append)
  moreover have "rows s' = rows s @ concat (map2 (reaction_block w n V d) (srcs1 # srcss) (r # rs))"
    using rows2 by simp
  moreover have "\<forall>r' \<in> set (r # rs). \<not> below_zero (filler_volume V d (snd r'))"
    using nonneg nn2 by simp
  ultimately show ?case by blast
qed

lemma dispense_reactions_exceeds:
  assumes "well_formed m" and "\<forall>r \<in> set rs. set (snd r) \<subseteq> dom m"
    and "find (\<lambda>r. below_zero (filler_volume V d (snd r))) rs = Some r"
  shows "dispense_reactions m V d w n rs s =
           Inl (ValueError (ReactionExceedsVolume (fst r) (length (snd r)) d
                  (float_mul (float_of_nat (length (snd r))) d) V))"
  using assms(2,3)
proof (induction rs arbitrary: s)
  case Nil
  then show ?case by simp
next
  case (Cons r' rs)
  show ?case
  proof (cases "below_zero (filler_volume V d (snd r'))")
    case True
    with Cons.prems(2) have "r = r'" by simp
    with True show ?thesis
      by (simp add: dispense_reactions_step del: dispense_reactions.simps)
  next
    case False
    from Cons.prems(1) have "set (snd r') \<subseteq> dom m" by simp
    from pick_all_succeeds [OF assms(1) this, of "well_usage s"] obtain srcs u' where
      p: "pick_all m (snd r') (well_usage s) = Inr (srcs, u')"
      by blast
    from Cons.prems False have "\<forall>r \<in> set rs. set (snd r) \<subseteq> dom m"
      and "find (\<lambda>r. below_zero (filler_volume V d (snd r))) rs = Some r"
      by simp_all
    from Cons.IH [OF this] False p show ?thesis
      by (simp add: dispense_reactions_step del: dispense_reactions.simps)
  qed
qed

lemma dispense_reactions_succeeds:
  assumes "well_formed m" and "\<forall>r \<in> set rs. set (snd r) \<subseteq> dom m"
    and "find (\<lambda>r. below_zero (filler_volume V d (snd r))) rs = None"
  shows "\<exists>s'. dispense_reactions m V d w n rs s = Inr s'"
  using assms(2,3)
proof (induction rs arbitrary: s)
  case Nil
  then show ?case by simp
next
  case (Cons r' rs)
  from Cons.prems(2) have ok: "\<not> below_zero (filler_volume V d (snd r'))"
    and none: "find (\<lambda>r. below_zero (filler_volume V d (snd r))) rs = None"
    by (simp_all split: if_splits)
  from Cons.prems(1) have "set (snd r') \<subseteq> dom m" and rest: "\<forall>r \<in> set rs. set (snd r) \<subseteq> dom m"
    by simp_all
  from pick_all_succeeds [OF assms(1) this(1), of "well_usage s"] obtain srcs u' where
    p: "pick_all m (snd r') (well_usage s) = Inr (srcs, u')"
    by blast
  from Cons.IH [OF rest none] ok p show ?case
    by (simp add: dispense_reactions_step del: dispense_reactions.simps)
qed

lemma all_parts_union: "all_parts rs = (\<Union>r \<in> set rs. set (snd r))"
proof -
  have "foldl (\<lambda>acc (_, parts). acc \<union> set parts) A rs = A \<union> (\<Union>r \<in> set rs. set (snd r))" for A
    by (induction rs arbitrary: A) (auto split: prod.splits)
  then show ?thesis
    by (simp add: all_parts_def)
qed

lemma missing_parts_eq: "missing_parts rs m = {p. (\<exists>r \<in> set rs. p \<in> set (snd r)) \<and> m p = None}"
  by (auto simp: missing_parts_def all_parts_union)

lemma finite_missing_parts: "finite (missing_parts rs m)"
  by (simp add: missing_parts_def all_parts_union)

lemma no_missing_parts: "missing_parts rs m = {} \<longleftrightarrow> (\<forall>r \<in> set rs. set (snd r) \<subseteq> dom m)"
  by (auto simp: missing_parts_eq)

subsection \<open>The planner: volumes and filler rows\<close>

lemma build_dispense_rows_blocks:
  assumes "build_dispense_rows rs m V d w n = Inr rws"
  shows "\<exists>srcss u. list_all2 (\<lambda>srcs r. length srcs = length (snd r)) srcss rs \<and>
           pick_all m (concat (map snd rs)) Map.empty = Inr (concat srcss, u) \<and>
           rws = concat (map2 (reaction_block w n V d) srcss rs) \<and>
           (\<forall>r \<in> set rs. \<not> below_zero (filler_volume V d (snd r)))"
proof -
  from assms obtain s' where
    run: "dispense_reactions m V d w n rs \<lparr>well_usage = Map.empty, rows = []\<rparr> = Inr s'" and
    rws: "rws = rows s'"
    by (auto simp: build_dispense_rows_def Let_def split: if_splits sum.splits)
  from dispense_reactions_blocks [OF run] rws show ?thesis
    by auto
qed

lemma filler_example_3:
  "build_dispense_rows [(''B2'', replicate 3 ''P'')] [''P'' \<mapsto> [''C1'']]
       (Finite 10) (Finite (1 / 2)) ''A1'' ''Mastermix'' =
     Inr [(''C1'', ''B2'', Finite (1 / 2), ''P''), (''C1'', ''B2'', Finite (1 / 2), ''P''),
          (''C1'', ''B2'', Finite (1 / 2), ''P''), (''A1'', ''B2'', Finite (17 / 2), ''Mastermix'')]"
  by code_simp

lemma filler_example_20:
  "build_dispense_rows [(''B2'', replicate 20 ''P'')] [''P'' \<mapsto> [''C1'']]
       (Finite 10) (Finite (1 / 2)) ''A1'' ''Mastermix'' =
     Inr (replicate 20 (''C1'', ''B2'', Finite (1 / 2), ''P''))"
  by code_simp

lemma filler_example_21:
  "build_dispense_rows [(''B2'', replicate 21 ''P'')] [''P'' \<mapsto> [''C1'']]
       (Finite 10) (Finite (1 / 2)) ''A1'' ''Mastermix'' =
     Inl (ValueError (ReactionExceedsVolume ''B2'' 21 (Finite (1 / 2)) (Finite (21 / 2))
            (Finite 10)))"
  by code_simp

lemma filler_volume_examples:
  "filler_volume (Finite 10) (Finite (1 / 2)) (replicate 3 ''P'') = Finite (17 / 2)"
  "filler_volume (Finite 10) (Finite (1 / 2)) (replicate 20 ''P'') = Finite 0"
  "filler_volume (Finite 10) (Finite (1 / 2)) (replicate 21 ''P'') = Finite (- (1 / 2))"
  by code_simp+

text \<open>
  Two runs on which the rounding decides. With \<open>V = 1.74995\<close> and \<open>d = 0.35\<close>, five parts
  take \<open>1.75\<close>; the float difference is a little below \<open>-0.00005\<close> and is rounded to
  \<open>-0.0001\<close>, so the reaction is refused. With \<open>V = 0.3\<close> and \<open>d = 0.1\<close>, two parts leave
  the float \<open>0.09999999999999998\<close>, and the filler volume is its rounding, \<open>0.1\<close>.
\<close>

lemma rounding_example_negative:
  "filler_volume (nearest_double (174995 / 100000)) (nearest_double (35 / 100))
     (replicate 5 ''P'') = nearest_double (- (1 / 10000))"
  by code_simp

lemma rounding_example_refused:
  "build_dispense_rows [(''B2'', replicate 5 ''P'')] [''P'' \<mapsto> [''C1'']]
       (nearest_double (174995 / 100000)) (nearest_double (35 / 100)) ''A1'' ''Mastermix'' =
     Inl (ValueError (ReactionExceedsVolume ''B2'' 5 (nearest_double (35 / 100)) (Finite (7 / 4))
            (nearest_double (174995 / 100000))))"
  by code_simp

lemma rounding_example_unrounded:
  "float_sub (nearest_double (3 / 10)) (float_mul (float_of_nat 2) (nearest_double (1 / 10))) =
     Finite (900719925474099 / 9007199254740992)"
  by code_simp

lemma rounding_example_positive:
  "build_dispense_rows [(''B2'', replicate 2 ''P'')] [''P'' \<mapsto> [''C1'']]
       (nearest_double (3 / 10)) (nearest_double (1 / 10)) ''A1'' ''Mastermix'' =
     Inr [(''C1'', ''B2'', nearest_double (1 / 10), ''P''),
          (''C1'', ''B2'', nearest_double (1 / 10), ''P''),
          (''A1'', ''B2'', nearest_double (1 / 10), ''Mastermix'')]"
  by code_simp

text \<open>
  C1: the filler volume of a reaction with \<open>n\<close> parts is \<open>round(V - n * d, 4)\<close>, computed
  in floats. If it is negative for some reaction, the planner returns no row list. On a
  well-formed reagent map that declares every part, the planner raises the
  volume-exceeded error of the first such reaction, with its target well, its part count,
  \<open>d\<close>, \<open>n * d\<close> and \<open>V\<close>; without such a reaction it returns the blocks of the reactions,
  where a block ends with exactly one filler row (filler well, target, filler volume,
  filler name) if the filler volume is positive and has no filler row otherwise, in
  particular if it is zero. With \<open>V = 10\<close> and \<open>d = 0.5\<close>: 3 parts give the filler volume
  8.5 and one filler row, 20 parts give 0 and no filler row, 21 parts fail. The volume is
  the rounded one: with \<open>V = 1.74995\<close> and \<open>d = 0.35\<close>, 5 parts give \<open>-0.0001\<close> and fail;
  with \<open>V = 0.3\<close> and \<open>d = 0.1\<close>, 2 parts give the filler row the volume \<open>0.1\<close>, not the
  unrounded difference.
\<close>

theorem build_dispense_rows_filler:
  "((\<exists>r \<in> set rs. below_zero (filler_volume V d (snd r))) \<longrightarrow>
      (\<exists>e. build_dispense_rows rs m V d w n = Inl e)) \<and>
   (well_formed m \<and> missing_parts rs m = {} \<longrightarrow>
      (case find (\<lambda>r. below_zero (filler_volume V d (snd r))) rs of
         Some r \<Rightarrow>
           build_dispense_rows rs m V d w n =
             Inl (ValueError (ReactionExceedsVolume (fst r) (length (snd r)) d
                    (float_mul (float_of_nat (length (snd r))) d) V))
       | None \<Rightarrow>
           (\<exists>srcss. list_all2 (\<lambda>srcs r. length srcs = length (snd r)) srcss rs \<and>
              build_dispense_rows rs m V d w n =
                Inr (concat (map2 (reaction_block w n V d) srcss rs))))) \<and>
   filler_volume (Finite 10) (Finite (1 / 2)) (replicate 3 ''P'') = Finite (17 / 2) \<and>
   build_dispense_rows [(''B2'', replicate 3 ''P'')] [''P'' \<mapsto> [''C1'']]
       (Finite 10) (Finite (1 / 2)) ''A1'' ''Mastermix'' =
     Inr [(''C1'', ''B2'', Finite (1 / 2), ''P''), (''C1'', ''B2'', Finite (1 / 2), ''P''),
          (''C1'', ''B2'', Finite (1 / 2), ''P''),
          (''A1'', ''B2'', Finite (17 / 2), ''Mastermix'')] \<and>
   filler_volume (Finite 10) (Finite (1 / 2)) (replicate 20 ''P'') = Finite 0 \<and>
   build_dispense_rows [(''B2'', replicate 20 ''P'')] [''P'' \<mapsto> [''C1'']]
       (Finite 10) (Finite (1 / 2)) ''A1'' ''Mastermix'' =
     Inr (replicate 20 (''C1'', ''B2'', Finite (1 / 2), ''P'')) \<and>
   filler_volume (Finite 10) (Finite (1 / 2)) (replicate 21 ''P'') = Finite (- (1 / 2)) \<and>
   build_dispense_rows [(''B2'', replicate 21 ''P'')] [''P'' \<mapsto> [''C1'']]
       (Finite 10) (Finite (1 / 2)) ''A1'' ''Mastermix'' =
     Inl (ValueError (ReactionExceedsVolume ''B2'' 21 (Finite (1 / 2)) (Finite (21 / 2))
            (Finite 10))) \<and>
   filler_volume (nearest_double (174995 / 100000)) (nearest_double (35 / 100))
       (replicate 5 ''P'') = nearest_double (- (1 / 10000)) \<and>
   build_dispense_rows [(''B2'', replicate 5 ''P'')] [''P'' \<mapsto> [''C1'']]
       (nearest_double (174995 / 100000)) (nearest_double (35 / 100)) ''A1'' ''Mastermix'' =
     Inl (ValueError (ReactionExceedsVolume ''B2'' 5 (nearest_double (35 / 100)) (Finite (7 / 4))
            (nearest_double (174995 / 100000)))) \<and>
   float_sub (nearest_double (3 / 10)) (float_mul (float_of_nat 2) (nearest_double (1 / 10))) =
     Finite (900719925474099 / 9007199254740992) \<and>
   build_dispense_rows [(''B2'', replicate 2 ''P'')] [''P'' \<mapsto> [''C1'']]
       (nearest_double (3 / 10)) (nearest_double (1 / 10)) ''A1'' ''Mastermix'' =
     Inr [(''C1'', ''B2'', nearest_double (1 / 10), ''P''),
          (''C1'', ''B2'', nearest_double (1 / 10), ''P''),
          (''A1'', ''B2'', nearest_double (1 / 10), ''Mastermix'')]"
proof -
  have negative: "(\<exists>r \<in> set rs. below_zero (filler_volume V d (snd r))) \<longrightarrow>
      (\<exists>e. build_dispense_rows rs m V d w n = Inl e)"
  proof
    assume neg: "\<exists>r \<in> set rs. below_zero (filler_volume V d (snd r))"
    show "\<exists>e. build_dispense_rows rs m V d w n = Inl e"
    proof (cases "build_dispense_rows rs m V d w n")
      case (Inl e)
      then show ?thesis by blast
    next
      case (Inr rws)
      from build_dispense_rows_blocks [OF this]
      have "\<forall>r \<in> set rs. \<not> below_zero (filler_volume V d (snd r))"
        by blast
      with neg show ?thesis by blast
    qed
  qed
  have planned: "well_formed m \<and> missing_parts rs m = {} \<longrightarrow>
      (case find (\<lambda>r. below_zero (filler_volume V d (snd r))) rs of
         Some r \<Rightarrow>
           build_dispense_rows rs m V d w n =
             Inl (ValueError (ReactionExceedsVolume (fst r) (length (snd r)) d
                    (float_mul (float_of_nat (length (snd r))) d) V))
       | None \<Rightarrow>
           (\<exists>srcss. list_all2 (\<lambda>srcs r. length srcs = length (snd r)) srcss rs \<and>
              build_dispense_rows rs m V d w n =
                Inr (concat (map2 (reaction_block w n V d) srcss rs))))"
  proof
    assume a: "well_formed m \<and> missing_parts rs m = {}"
    then have wf: "well_formed m" and declared: "\<forall>r \<in> set rs. set (snd r) \<subseteq> dom m"
      by (simp_all add: no_missing_parts)
    let ?s0 = "\<lparr>well_usage = Map.empty, rows = []\<rparr>"
    show "case find (\<lambda>r. below_zero (filler_volume V d (snd r))) rs of
         Some r \<Rightarrow>
           build_dispense_rows rs m V d w n =
             Inl (ValueError (ReactionExceedsVolume (fst r) (length (snd r)) d
                    (float_mul (float_of_nat (length (snd r))) d) V))
       | None \<Rightarrow>
           (\<exists>srcss. list_all2 (\<lambda>srcs r. length srcs = length (snd r)) srcss rs \<and>
              build_dispense_rows rs m V d w n =
                Inr (concat (map2 (reaction_block w n V d) srcss rs)))"
    proof (cases "find (\<lambda>r. below_zero (filler_volume V d (snd r))) rs")
      case (Some r)
      from dispense_reactions_exceeds [OF wf declared Some, of w n ?s0] a Some
      show ?thesis
        by (simp add: build_dispense_rows_def)
    next
      case None
      from dispense_reactions_succeeds [OF wf declared None, of w n ?s0] obtain s' where
        run: "dispense_reactions m V d w n rs ?s0 = Inr s'"
        by blast
      with a have "build_dispense_rows rs m V d w n = Inr (rows s')"
        by (simp add: build_dispense_rows_def)
      moreover from dispense_reactions_blocks [OF run] obtain srcss where
        "list_all2 (\<lambda>srcs r. length srcs = length (snd r)) srcss rs"
        "rows s' = concat (map2 (reaction_block w n V d) srcss rs)"
        by auto
      ultimately show ?thesis
        using None by auto
    qed
  qed
  show ?thesis
    by (intro conjI negative planned filler_example_3 filler_example_20 filler_example_21
        filler_volume_examples rounding_example_negative rounding_example_refused
        rounding_example_unrounded rounding_example_positive)
qed

lemma example_21_hyps:
  "well_formed [''P'' \<mapsto> [''C1'']]"
  "missing_parts [(''B2'', replicate 21 ''P'')] [''P'' \<mapsto> [''C1'']] = {}"
  "find (\<lambda>r. below_zero (filler_volume (Finite 10) (Finite (1 / 2)) (snd r)))
     [(''B2'', replicate 21 ''P'')] = Some (''B2'', replicate 21 ''P'')"
  by (simp_all add: well_formed_def no_missing_parts filler_volume_examples below_zero_def)

lemma example_21_product: "float_mul (float_of_nat 21) (Finite (1 / 2)) = Finite (21 / 2)"
  by code_simp

theorem build_dispense_rows_filler_witness:
  "missing_parts [(''B2'', replicate 21 ''P'')] [''P'' \<mapsto> [''C1'']] = {} \<and>
   find (\<lambda>r. below_zero (filler_volume (Finite 10) (Finite (1 / 2)) (snd r)))
     [(''B2'', replicate 21 ''P'')] = Some (''B2'', replicate 21 ''P'') \<and>
   build_dispense_rows [(''B2'', replicate 21 ''P'')] [''P'' \<mapsto> [''C1'']]
       (Finite 10) (Finite (1 / 2)) ''A1'' ''Mastermix'' =
     Inl (ValueError (ReactionExceedsVolume ''B2'' 21 (Finite (1 / 2)) (Finite (21 / 2))
            (Finite 10)))"
proof -
  let ?rs = "[(''B2'', replicate 21 ''P'')]"
  let ?m = "[''P'' \<mapsto> [''C1'']]"
  have "well_formed ?m \<and> missing_parts ?rs ?m = {}"
    by (simp add: example_21_hyps)
  with build_dispense_rows_filler [of ?rs "Finite 10" "Finite (1 / 2)" ?m "''A1''" "''Mastermix''",
      THEN conjunct2, THEN conjunct1]
  have "case find (\<lambda>r. below_zero (filler_volume (Finite 10) (Finite (1 / 2)) (snd r))) ?rs of
      Some r \<Rightarrow>
        build_dispense_rows ?rs ?m (Finite 10) (Finite (1 / 2)) ''A1'' ''Mastermix'' =
          Inl (ValueError (ReactionExceedsVolume (fst r) (length (snd r)) (Finite (1 / 2))
                 (float_mul (float_of_nat (length (snd r))) (Finite (1 / 2))) (Finite 10)))
    | None \<Rightarrow>
        (\<exists>srcss. list_all2 (\<lambda>srcs r. length srcs = length (snd r)) srcss ?rs \<and>
           build_dispense_rows ?rs ?m (Finite 10) (Finite (1 / 2)) ''A1'' ''Mastermix'' =
             Inr (concat (map2 (reaction_block ''A1'' ''Mastermix'' (Finite 10) (Finite (1 / 2)))
                    srcss ?rs)))"
    by (rule mp)
  then have "build_dispense_rows ?rs ?m (Finite 10) (Finite (1 / 2)) ''A1'' ''Mastermix'' =
      Inl (ValueError (ReactionExceedsVolume ''B2'' 21 (Finite (1 / 2)) (Finite (21 / 2))
             (Finite 10)))"
    by (simp only: example_21_hyps option.case fst_conv snd_conv length_replicate
        example_21_product)
  then show ?thesis
    by (simp only: example_21_hyps simp_thms)
qed

subsection \<open>The planner: load balancing\<close>

lemma balancing_example_rows:
  "build_dispense_rows [(''B1'', [''R'']), (''B2'', [''R'']), (''B3'', [''R''])]
       [''R'' \<mapsto> [''A1'', ''A2'']] (Finite 10) (Finite (1 / 2)) ''A1'' ''Mastermix'' =
     Inr [(''A1'', ''B1'', Finite (1 / 2), ''R''), (''A1'', ''B1'', Finite (19 / 2), ''Mastermix''),
          (''A2'', ''B2'', Finite (1 / 2), ''R''), (''A1'', ''B2'', Finite (19 / 2), ''Mastermix''),
          (''A1'', ''B3'', Finite (1 / 2), ''R''), (''A1'', ''B3'', Finite (19 / 2), ''Mastermix'')]"
  by code_simp

lemma balancing_example_counts:
  "map_sum id (\<lambda>s. (usage_get (well_usage s) ''A1'', usage_get (well_usage s) ''A2''))
     (dispense_reactions [''R'' \<mapsto> [''A1'', ''A2'']] (Finite 10) (Finite (1 / 2)) ''A1'' ''Mastermix''
        [(''B1'', [''R'']), (''B2'', [''R'']), (''B3'', [''R''])]
        \<lparr>well_usage = Map.empty, rows = []\<rparr>) = Inr (2, 1)"
  by code_simp

text \<open>
  C2: a part whose reagent has the declared source wells \<open>wells\<close>, not empty, is drawn
  from a well \<open>best\<close> of that list with the smallest usage count so far: every well
  declared before \<open>best\<close> has a strictly larger count and every well declared after it
  has a count at least as large, so ties go to the earliest-declared well; the count of
  \<open>best\<close> is then one more and no other count changes. The source wells of the rows the
  planner returns are these selections, made for the parts of all reactions in order,
  starting from the empty counter. A reagent declared at A1 and A2 and used once in each
  of three reactions is drawn from A1, A2, A1, and the counts are 2 and 1 at the end.
\<close>

theorem pick_source_well_least_used:
  "(m reagent = Some wells \<and> wells \<noteq> [] \<longrightarrow>
      (\<exists>best pre post.
         pick_source_well m u reagent = Inr (best, u(best \<mapsto> usage_get u best + 1)) \<and>
         wells = pre @ best # post \<and>
         (\<forall>w \<in> set pre. usage_get u best < usage_get u w) \<and>
         (\<forall>w \<in> set post. usage_get u best \<le> usage_get u w))) \<and>
   (build_dispense_rows rs m V d w n = Inr rws \<longrightarrow>
      (\<exists>srcss u'. list_all2 (\<lambda>srcs r. length srcs = length (snd r)) srcss rs \<and>
         pick_all m (concat (map snd rs)) Map.empty = Inr (concat srcss, u') \<and>
         rws = concat (map2 (reaction_block w n V d) srcss rs))) \<and>
   build_dispense_rows [(''B1'', [''R'']), (''B2'', [''R'']), (''B3'', [''R''])]
       [''R'' \<mapsto> [''A1'', ''A2'']] (Finite 10) (Finite (1 / 2)) ''A1'' ''Mastermix'' =
     Inr [(''A1'', ''B1'', Finite (1 / 2), ''R''), (''A1'', ''B1'', Finite (19 / 2), ''Mastermix''),
          (''A2'', ''B2'', Finite (1 / 2), ''R''), (''A1'', ''B2'', Finite (19 / 2), ''Mastermix''),
          (''A1'', ''B3'', Finite (1 / 2), ''R''), (''A1'', ''B3'', Finite (19 / 2), ''Mastermix'')] \<and>
   map_sum id (\<lambda>s. (usage_get (well_usage s) ''A1'', usage_get (well_usage s) ''A2''))
     (dispense_reactions [''R'' \<mapsto> [''A1'', ''A2'']] (Finite 10) (Finite (1 / 2)) ''A1'' ''Mastermix''
        [(''B1'', [''R'']), (''B2'', [''R'']), (''B3'', [''R''])]
        \<lparr>well_usage = Map.empty, rows = []\<rparr>) = Inr (2, 1)"
proof -
  have "m reagent = Some wells \<and> wells \<noteq> [] \<longrightarrow>
      (\<exists>best pre post.
         pick_source_well m u reagent = Inr (best, u(best \<mapsto> usage_get u best + 1)) \<and>
         wells = pre @ best # post \<and>
         (\<forall>w \<in> set pre. usage_get u best < usage_get u w) \<and>
         (\<forall>w \<in> set post. usage_get u best \<le> usage_get u w))"
    using pick_source_well_first_least [of m reagent wells u] by blast
  moreover have "build_dispense_rows rs m V d w n = Inr rws \<longrightarrow>
      (\<exists>srcss u'. list_all2 (\<lambda>srcs r. length srcs = length (snd r)) srcss rs \<and>
         pick_all m (concat (map snd rs)) Map.empty = Inr (concat srcss, u') \<and>
         rws = concat (map2 (reaction_block w n V d) srcss rs))"
    using build_dispense_rows_blocks [of rs m V d w n rws] by blast
  ultimately show ?thesis
    using balancing_example_rows balancing_example_counts by simp
qed

theorem pick_source_well_least_used_witness:
  "[''R'' \<mapsto> [''A1'', ''A2'', ''A3'']] ''R'' = Some [''A1'', ''A2'', ''A3''] \<and>
   [''A1'', ''A2'', ''A3''] \<noteq> [] \<and>
   (\<exists>best pre post.
      pick_source_well [''R'' \<mapsto> [''A1'', ''A2'', ''A3'']] [''A1'' \<mapsto> 1] ''R'' =
        Inr (best, [''A1'' \<mapsto> 1](best \<mapsto> usage_get [''A1'' \<mapsto> 1] best + 1)) \<and>
      [''A1'', ''A2'', ''A3''] = pre @ best # post) \<and>
   map_sum id fst (pick_source_well [''R'' \<mapsto> [''A1'', ''A2'', ''A3'']] [''A1'' \<mapsto> 1] ''R'') =
     Inr ''A2''"
proof -
  have picked:
    "map_sum id fst (pick_source_well [''R'' \<mapsto> [''A1'', ''A2'', ''A3'']] [''A1'' \<mapsto> 1] ''R'') =
       Inr ''A2''"
    by (simp add: pick_source_well_def min_by_key_def usage_get_def)
  have "[''R'' \<mapsto> [''A1'', ''A2'', ''A3'']] ''R'' = Some [''A1'', ''A2'', ''A3''] \<and>
      [''A1'', ''A2'', ''A3''] \<noteq> []"
    by simp
  with pick_source_well_least_used
      [of "[''R'' \<mapsto> [''A1'', ''A2'', ''A3'']]" "''R''" "[''A1'', ''A2'', ''A3'']" "[''A1'' \<mapsto> 1]"]
  have "\<exists>best pre post.
      pick_source_well [''R'' \<mapsto> [''A1'', ''A2'', ''A3'']] [''A1'' \<mapsto> 1] ''R'' =
        Inr (best, [''A1'' \<mapsto> 1](best \<mapsto> usage_get [''A1'' \<mapsto> 1] best + 1)) \<and>
      [''A1'', ''A2'', ''A3''] = pre @ best # post"
    by blast
  with picked show ?thesis by simp
qed

subsection \<open>The planner: the order of the rows\<close>

lemma order_example:
  "build_dispense_rows [(''B1'', [''R'', ''S'']), (''B2'', replicate 4 ''S''), (''B3'', [''S'', ''R''])]
       [''R'' \<mapsto> [''A1'', ''A2''], ''S'' \<mapsto> [''C1'']] (Finite 2) (Finite (1 / 2)) ''H12'' ''Mastermix'' =
     Inr [(''A1'', ''B1'', Finite (1 / 2), ''R''), (''C1'', ''B1'', Finite (1 / 2), ''S''),
          (''H12'', ''B1'', Finite 1, ''Mastermix''),
          (''C1'', ''B2'', Finite (1 / 2), ''S''), (''C1'', ''B2'', Finite (1 / 2), ''S''),
          (''C1'', ''B2'', Finite (1 / 2), ''S''), (''C1'', ''B2'', Finite (1 / 2), ''S''),
          (''C1'', ''B3'', Finite (1 / 2), ''S''), (''A2'', ''B3'', Finite (1 / 2), ''R''),
          (''H12'', ''B3'', Finite 1, ''Mastermix'')]"
  by code_simp

text \<open>
  C5: the row list the planner returns is the concatenation of the blocks of the
  reactions, in input order; the block of a reaction has one row per part, in part
  order, with the volume \<open>d\<close> and the part's name, and then the filler row, if there is
  one.
\<close>

theorem build_dispense_rows_order:
  "build_dispense_rows rs m V d w n = Inr rws \<longrightarrow>
     (\<exists>srcss. list_all2 (\<lambda>srcs r. length srcs = length (snd r)) srcss rs \<and>
        rws = concat (map2 (reaction_block w n V d) srcss rs))"
  using build_dispense_rows_blocks [of rs m V d w n rws] by blast

theorem build_dispense_rows_order_witness:
  "\<exists>srcss.
      list_all2 (\<lambda>srcs r. length srcs = length (snd r)) srcss
        [(''B1'', [''R'', ''S'']), (''B2'', replicate 4 ''S''), (''B3'', [''S'', ''R''])] \<and>
      [(''A1'', ''B1'', Finite (1 / 2), ''R''), (''C1'', ''B1'', Finite (1 / 2), ''S''),
       (''H12'', ''B1'', Finite 1, ''Mastermix''),
       (''C1'', ''B2'', Finite (1 / 2), ''S''), (''C1'', ''B2'', Finite (1 / 2), ''S''),
       (''C1'', ''B2'', Finite (1 / 2), ''S''), (''C1'', ''B2'', Finite (1 / 2), ''S''),
       (''C1'', ''B3'', Finite (1 / 2), ''S''), (''A2'', ''B3'', Finite (1 / 2), ''R''),
       (''H12'', ''B3'', Finite 1, ''Mastermix'')] =
      concat (map2 (reaction_block ''H12'' ''Mastermix'' (Finite 2) (Finite (1 / 2))) srcss
        [(''B1'', [''R'', ''S'']), (''B2'', replicate 4 ''S''), (''B3'', [''S'', ''R''])])"
  by (rule mp [OF build_dispense_rows_order order_example])

subsection \<open>The planner: missing reagents\<close>

lemma missing_example:
  "build_dispense_rows [(''B1'', replicate 5 ''R''), (''B2'', [''R'', ''Z'', ''Q''])]
       [''R'' \<mapsto> [''A1'', ''A2'']] (Finite 2) (Finite (1 / 2)) ''A1'' ''Mastermix'' =
     Inl (ValueError (PartsNotOnSourcePlate [''Q'', ''Z'']))"
  by code_simp

text \<open>
  C4: if some part of some reaction is not a key of the reagent map, the planner raises
  the missing-reagent error, whatever the volumes and wherever the part occurs; the names
  in its message are exactly the referenced parts that are not declared, each once, in
  ascending order. No row list is returned: the check comes before the loops, so in the
  example the error is the missing-reagent one although the first reaction, all of whose
  parts are declared, exceeds the total volume.
\<close>

theorem build_dispense_rows_missing:
  "(\<exists>r \<in> set rs. \<exists>p \<in> set (snd r). m p = None) \<longrightarrow>
     (\<exists>names. build_dispense_rows rs m V d w n = Inl (ValueError (PartsNotOnSourcePlate names)) \<and>
        sorted_wrt (<) names \<and>
        set names = {p. (\<exists>r \<in> set rs. p \<in> set (snd r)) \<and> m p = None})"
proof
  assume "\<exists>r \<in> set rs. \<exists>p \<in> set (snd r). m p = None"
  then have nonempty: "missing_parts rs m \<noteq> {}"
    by (auto simp: missing_parts_eq)
  let ?names = "sorted_list_of_set (missing_parts rs m)"
  have "build_dispense_rows rs m V d w n = Inl (ValueError (PartsNotOnSourcePlate ?names))"
    using nonempty by (simp add: build_dispense_rows_def)
  moreover have "sorted_wrt (<) ?names"
    by simp
  moreover have "set ?names = {p. (\<exists>r \<in> set rs. p \<in> set (snd r)) \<and> m p = None}"
    using finite_missing_parts [of rs m] by (simp add: missing_parts_eq)
  ultimately show "\<exists>names. build_dispense_rows rs m V d w n =
        Inl (ValueError (PartsNotOnSourcePlate names)) \<and> sorted_wrt (<) names \<and>
        set names = {p. (\<exists>r \<in> set rs. p \<in> set (snd r)) \<and> m p = None}"
    by blast
qed

theorem build_dispense_rows_missing_witness:
  "below_zero (filler_volume (Finite 2) (Finite (1 / 2)) (replicate 5 ''R'')) \<and>
   build_dispense_rows [(''B1'', replicate 5 ''R''), (''B2'', [''R'', ''Z'', ''Q''])]
       [''R'' \<mapsto> [''A1'', ''A2'']] (Finite 2) (Finite (1 / 2)) ''A1'' ''Mastermix'' =
     Inl (ValueError (PartsNotOnSourcePlate [''Q'', ''Z'']))"
proof -
  let ?rs = "[(''B1'', replicate 5 ''R''), (''B2'', [''R'', ''Z'', ''Q''])]"
  let ?m = "[''R'' \<mapsto> [''A1'', ''A2'']]"
  have "\<exists>r \<in> set ?rs. \<exists>p \<in> set (snd r). ?m p = None"
    by simp
  with build_dispense_rows_missing [of ?rs ?m "Finite 2" "Finite (1 / 2)" "''A1''" "''Mastermix''"]
  obtain names where
    "build_dispense_rows ?rs ?m (Finite 2) (Finite (1 / 2)) ''A1'' ''Mastermix'' =
       Inl (ValueError (PartsNotOnSourcePlate names))"
    by blast
  with missing_example have "names = [''Q'', ''Z'']"
    by simp
  moreover have "below_zero (filler_volume (Finite 2) (Finite (1 / 2)) (replicate 5 ''R''))"
    by code_simp
  ultimately show ?thesis
    using missing_example by simp
qed

subsection \<open>The planner: filler rows and the usage counter\<close>

lemma coinciding_filler_well_run:
  "map_sum id (\<lambda>s. (map fst (rows s), usage_get (well_usage s) ''A1''))
     (dispense_reactions [''R'' \<mapsto> [''A1'', ''A2'']] (Finite 10) (Finite (1 / 2)) ''A1'' ''Mastermix''
        [(''B1'', [''R'']), (''B2'', [''R'']), (''B3'', [''R''])]
        \<lparr>well_usage = Map.empty, rows = []\<rparr>) =
   Inr ([''A1'', ''A1'', ''A2'', ''A1'', ''A1'', ''A1''], 2)"
  by code_simp

lemma coinciding_filler_well_example:
  "\<exists>s'. dispense_reactions [''R'' \<mapsto> [''A1'', ''A2'']] (Finite 10) (Finite (1 / 2)) ''A1'' ''Mastermix''
          [(''B1'', [''R'']), (''B2'', [''R'']), (''B3'', [''R''])]
          \<lparr>well_usage = Map.empty, rows = []\<rparr> = Inr s' \<and>
        map fst (rows s') = [''A1'', ''A1'', ''A2'', ''A1'', ''A1'', ''A1''] \<and>
        usage_get (well_usage s') ''A1'' = 2"
  using coinciding_filler_well_run
  by (cases "dispense_reactions [''R'' \<mapsto> [''A1'', ''A2'']] (Finite 10) (Finite (1 / 2)) ''A1'' ''Mastermix''
          [(''B1'', [''R'']), (''B2'', [''R'']), (''B3'', [''R''])]
          \<lparr>well_usage = Map.empty, rows = []\<rparr>") simp_all

text \<open>
  C10: the usage counter at the end of the reaction loop is the counter that selecting a
  source well for each part, in order, leaves: the count of every well has grown by the
  number of parts drawn from it, and by nothing else. The filler well, the filler name
  and the volumes do not enter, so two runs over the same reactions from the same counter
  end with the same counter whatever their filler settings. In the example the filler
  well A1 is also a source well of the reagent: A1 is the source of five rows, three of
  them filler rows, and its count is 2.
\<close>

theorem filler_rows_leave_usage:
  "(dispense_reactions m V d w n rs s = Inr s' \<longrightarrow>
      (\<exists>srcs. pick_all m (concat (map snd rs)) (well_usage s) = Inr (srcs, well_usage s') \<and>
         (\<forall>well. usage_get (well_usage s') well =
            usage_get (well_usage s) well + int (count_list srcs well)))) \<and>
   (dispense_reactions m V d w n rs s = Inr s' \<and>
    dispense_reactions m V' d' w' n' rs s = Inr s'' \<longrightarrow> well_usage s'' = well_usage s')"
proof (intro conjI impI)
  assume run: "dispense_reactions m V d w n rs s = Inr s'"
  from dispense_reactions_blocks [OF run] obtain srcss where
    picks: "pick_all m (concat (map snd rs)) (well_usage s) = Inr (concat srcss, well_usage s')"
    by blast
  then have "\<forall>well. usage_get (well_usage s') well =
      usage_get (well_usage s) well + int (count_list (concat srcss) well)"
    by (simp add: pick_all_usage)
  with picks show "\<exists>srcs. pick_all m (concat (map snd rs)) (well_usage s) = Inr (srcs, well_usage s') \<and>
      (\<forall>well. usage_get (well_usage s') well =
         usage_get (well_usage s) well + int (count_list srcs well))"
    by blast
next
  assume runs: "dispense_reactions m V d w n rs s = Inr s' \<and>
    dispense_reactions m V' d' w' n' rs s = Inr s''"
  from runs dispense_reactions_blocks [of m V d w n rs s s'] obtain srcss where
    "pick_all m (concat (map snd rs)) (well_usage s) = Inr (concat srcss, well_usage s')"
    by blast
  moreover from runs dispense_reactions_blocks [of m V' d' w' n' rs s s''] obtain srcss' where
    "pick_all m (concat (map snd rs)) (well_usage s) = Inr (concat srcss', well_usage s'')"
    by blast
  ultimately show "well_usage s'' = well_usage s'"
    by simp
qed

theorem filler_rows_leave_usage_witness:
  "\<exists>s' srcs.
     dispense_reactions [''R'' \<mapsto> [''A1'', ''A2'']] (Finite 10) (Finite (1 / 2)) ''A1'' ''Mastermix''
       [(''B1'', [''R'']), (''B2'', [''R'']), (''B3'', [''R''])]
       \<lparr>well_usage = Map.empty, rows = []\<rparr> = Inr s' \<and>
     map fst (rows s') = [''A1'', ''A1'', ''A2'', ''A1'', ''A1'', ''A1''] \<and>
     pick_all [''R'' \<mapsto> [''A1'', ''A2'']] [''R'', ''R'', ''R''] Map.empty = Inr (srcs, well_usage s') \<and>
     usage_get (well_usage s') ''A1'' = int (count_list srcs ''A1'') \<and>
     usage_get (well_usage s') ''A1'' = 2"
proof -
  let ?m = "[''R'' \<mapsto> [''A1'', ''A2'']]"
  let ?rs = "[(''B1'', [''R'']), (''B2'', [''R'']), (''B3'', [''R''])]"
  let ?s0 = "\<lparr>well_usage = Map.empty, rows = []\<rparr>"
  from coinciding_filler_well_example obtain s' where
    run: "dispense_reactions ?m (Finite 10) (Finite (1 / 2)) ''A1'' ''Mastermix'' ?rs ?s0 = Inr s'" and
    srcs: "map fst (rows s') = [''A1'', ''A1'', ''A2'', ''A1'', ''A1'', ''A1'']" and
    count: "usage_get (well_usage s') ''A1'' = 2"
    by (elim exE conjE)
  from run filler_rows_leave_usage [of ?m "Finite 10" "Finite (1 / 2)" "''A1''" "''Mastermix''" ?rs ?s0 s']
  obtain srcs where
    "pick_all ?m (concat (map snd ?rs)) (well_usage ?s0) = Inr (srcs, well_usage s')"
    "\<forall>well. usage_get (well_usage s') well =
       usage_get (well_usage ?s0) well + int (count_list srcs well)"
    by blast
  then have picks: "pick_all ?m [''R'', ''R'', ''R''] Map.empty = Inr (srcs, well_usage s')"
    and parts_only: "usage_get (well_usage s') ''A1'' = int (count_list srcs ''A1'')"
    by (simp_all add: usage_get_def)
  show ?thesis
  proof (intro exI conjI)
    show "dispense_reactions ?m (Finite 10) (Finite (1 / 2)) ''A1'' ''Mastermix'' ?rs ?s0 = Inr s'"
      by (rule run)
    show "map fst (rows s') = [''A1'', ''A1'', ''A2'', ''A1'', ''A1'', ''A1'']"
      by (rule srcs)
    show "pick_all ?m [''R'', ''R'', ''R''] Map.empty = Inr (srcs, well_usage s')"
      by (rule picks)
    show "usage_get (well_usage s') ''A1'' = int (count_list srcs ''A1'')"
      by (rule parts_only)
    show "usage_get (well_usage s') ''A1'' = 2"
      by (rule count)
  qed
qed

subsection \<open>The planner: separate invocations\<close>

lemma pick_source_well_at_eq:
  "pick_source_well_at m a h p =
     map_sum id (\<lambda>(src, u'). (src, h[a := u'])) (pick_source_well m (h ! a) p)"
  by (simp add: pick_source_well_at_def pick_source_well_def split: option.splits sum.splits)

lemma dispense_parts_at_eq:
  assumes "a < length h"
  shows "dispense_parts_at m a target d ps (h, rws) =
     map_sum id (\<lambda>s. (h[a := well_usage s], rows s))
       (dispense_parts m target d ps \<lparr>well_usage = h ! a, rows = rws\<rparr>)"
  using assms
proof (induction ps arbitrary: h rws)
  case Nil
  then show ?case by simp
next
  case (Cons p ps)
  show ?case
  proof (cases "pick_source_well m (h ! a) p")
    case (Inl e)
    then show ?thesis
      by (simp add: pick_source_well_at_eq)
  next
    case (Inr picked)
    obtain src u' where picked: "picked = (src, u')"
      by (cases picked)
    from Cons.prems have "a < length (h[a := u'])"
      by simp
    from Cons.IH [OF this, of "rws @ [(src, target, d, p)]"] Inr picked Cons.prems
    show ?thesis
      by (simp add: pick_source_well_at_eq)
  qed
qed

lemma dispense_reactions_at_eq:
  assumes "a < length h"
  shows "dispense_reactions_at m a V d w n rs (h, rws) =
     map_sum id (\<lambda>s. (h[a := well_usage s], rows s))
       (dispense_reactions m V d w n rs \<lparr>well_usage = h ! a, rows = rws\<rparr>)"
  using assms
proof (induction rs arbitrary: h rws)
  case Nil
  then show ?case by simp
next
  case (Cons r rs)
  obtain target parts where r: "r = (target, parts)"
    by (cases r)
  let ?s = "\<lparr>well_usage = h ! a, rows = rws\<rparr>"
  show ?case
  proof (cases "below_zero (round4 (float_sub V (float_mul (float_of_nat (length parts)) d)))")
    case True
    then show ?thesis
      by (simp add: r Let_def)
  next
    case False
    note nonneg = this
    show ?thesis
    proof (cases "dispense_parts m target d parts ?s")
      case (Inl e)
      with nonneg Cons.prems show ?thesis
        by (simp add: r Let_def dispense_parts_at_eq)
    next
      case (Inr s1)
      let ?h1 = "h[a := well_usage s1]"
      from Cons.prems have a1: "a < length ?h1"
        by simp
      have s1: "s1\<lparr>rows := rws'\<rparr> = \<lparr>well_usage = well_usage s1, rows = rws'\<rparr>" for rws'
        by (cases s1) simp
      have s1': "\<lparr>well_usage = well_usage s1, rows = rows s1\<rparr> = s1"
        by (cases s1) simp
      from Cons.IH [OF a1] Inr nonneg Cons.prems show ?thesis
        by (simp add: r Let_def dispense_parts_at_eq s1 s1')
    qed
  qed
qed

lemma build_dispense_rows_on_eq:
  "build_dispense_rows_on h rs m V d w n =
     (if missing_parts rs m \<noteq> {}
      then Inl (ValueError (PartsNotOnSourcePlate (sorted_list_of_set (missing_parts rs m))))
      else map_sum id (\<lambda>s. (rows s, h @ [well_usage s]))
             (dispense_reactions m V d w n rs \<lparr>well_usage = Map.empty, rows = []\<rparr>))"
proof -
  have "dispense_reactions_at m (length h) V d w n rs (h @ [Map.empty], []) =
      map_sum id (\<lambda>s. ((h @ [Map.empty])[length h := well_usage s], rows s))
        (dispense_reactions m V d w n rs \<lparr>well_usage = (h @ [Map.empty]) ! length h, rows = []\<rparr>)"
    by (rule dispense_reactions_at_eq) simp
  then show ?thesis
    by (cases "dispense_reactions m V d w n rs \<lparr>well_usage = Map.empty, rows = []\<rparr>")
      (simp_all add: build_dispense_rows_on_def Let_def)
qed

lemma build_dispense_rows_on_rows:
  "map_sum id fst (build_dispense_rows_on h rs m V d w n) = build_dispense_rows rs m V d w n"
  by (cases "dispense_reactions m V d w n rs \<lparr>well_usage = Map.empty, rows = []\<rparr>")
    (simp_all add: build_dispense_rows_on_eq build_dispense_rows_def Let_def)

lemma one_part_filler:
  "round4 (float_sub (Finite 1) (float_mul (float_of_nat (Suc 0)) (Finite (1 / 2)))) =
     Finite (1 / 2)"
  by code_simp

lemma two_invocations_example:
  "build_dispense_rows_on [] [(''B1'', [''R'']), (''B2'', [''R''])]
       [''R'' \<mapsto> [''A1'', ''A2'']] (Finite 1) (Finite (1 / 2)) ''H1'' ''Mastermix'' =
     Inr ([(''A1'', ''B1'', Finite (1 / 2), ''R''), (''H1'', ''B1'', Finite (1 / 2), ''Mastermix''),
           (''A2'', ''B2'', Finite (1 / 2), ''R''), (''H1'', ''B2'', Finite (1 / 2), ''Mastermix'')],
          [[''A1'' \<mapsto> 1, ''A2'' \<mapsto> 1]])"
  by (simp add: build_dispense_rows_on_def missing_parts_def all_parts_def
      pick_source_well_at_def min_by_key_def usage_get_def Let_def one_part_filler
      below_zero_def above_zero_def)

text \<open>
  C7: the rows, or the error, of an invocation of \<open>build_dispense_rows\<close> do not depend on
  the heap it starts on: two invocations on the same arguments give the same result
  whatever dictionaries earlier invocations have left, and the result is the one of the
  model without a heap. A successful invocation creates one dictionary and leaves every
  dictionary that existed before as it was; a second invocation on the same arguments,
  started on the heap the first has left, returns the same rows.
\<close>

theorem build_dispense_rows_deterministic:
  "map_sum id fst (build_dispense_rows_on h1 rs m V d w n) =
     map_sum id fst (build_dispense_rows_on h2 rs m V d w n) \<and>
   map_sum id fst (build_dispense_rows_on h1 rs m V d w n) = build_dispense_rows rs m V d w n \<and>
   (build_dispense_rows_on h rs m V d w n = Inr (rws, h') \<longrightarrow>
      length h' = Suc (length h) \<and> take (length h) h' = h \<and>
      (\<exists>h''. build_dispense_rows_on h' rs m V d w n = Inr (rws, h'')))"
proof (intro conjI impI)
  show "map_sum id fst (build_dispense_rows_on h1 rs m V d w n) =
     map_sum id fst (build_dispense_rows_on h2 rs m V d w n)"
    by (simp only: build_dispense_rows_on_rows)
next
  show "map_sum id fst (build_dispense_rows_on h1 rs m V d w n) = build_dispense_rows rs m V d w n"
    by (rule build_dispense_rows_on_rows)
next
  assume run: "build_dispense_rows_on h rs m V d w n = Inr (rws, h')"
  then obtain s where
    "dispense_reactions m V d w n rs \<lparr>well_usage = Map.empty, rows = []\<rparr> = Inr s"
    and "missing_parts rs m = {}" and "rws = rows s" and h': "h' = h @ [well_usage s]"
    by (cases "dispense_reactions m V d w n rs \<lparr>well_usage = Map.empty, rows = []\<rparr>")
      (auto simp: build_dispense_rows_on_eq split: if_splits)
  then have again: "build_dispense_rows_on h' rs m V d w n = Inr (rws, h' @ [well_usage s])"
    by (simp add: build_dispense_rows_on_eq)
  from h' show "length h' = Suc (length h)"
    by simp
  from h' show "take (length h) h' = h"
    by simp
  from again show "\<exists>h''. build_dispense_rows_on h' rs m V d w n = Inr (rws, h'')"
    by blast
qed

theorem build_dispense_rows_deterministic_witness:
  "\<exists>h''. build_dispense_rows_on [[''A1'' \<mapsto> 1, ''A2'' \<mapsto> 1]] [(''B1'', [''R'']), (''B2'', [''R''])]
       [''R'' \<mapsto> [''A1'', ''A2'']] (Finite 1) (Finite (1 / 2)) ''H1'' ''Mastermix'' =
     Inr ([(''A1'', ''B1'', Finite (1 / 2), ''R''), (''H1'', ''B1'', Finite (1 / 2), ''Mastermix''),
           (''A2'', ''B2'', Finite (1 / 2), ''R''), (''H1'', ''B2'', Finite (1 / 2), ''Mastermix'')], h'')"
  using two_invocations_example
    build_dispense_rows_deterministic [where h = "[]" and rs = "[(''B1'', [''R'']), (''B2'', [''R''])]"
      and m = "[''R'' \<mapsto> [''A1'', ''A2'']]" and V = "Finite 1" and d = "Finite (1 / 2)" and w = "''H1''"
      and n = "''Mastermix''"]
  by blast

end
